theory Spec2Isabelle
  imports Complex_Main
begin

section \<open>Identifiers\<close>

text \<open>
  Python renders an integer in decimal (\<^verbatim>\<open>f"C{len(compartments) + 1}"\<close>) and, with
  the format \<^verbatim>\<open>:02d\<close>, pads it with zeros on the left to a width of two
  (\<^verbatim>\<open>f"SP-{self.plot_counter:02d}"\<close>). Both counters are never negative.
\<close>

definition digit_char :: "nat \<Rightarrow> char" where
  "digit_char d = ''0123456789'' ! d"

function str_nat :: "nat \<Rightarrow> string" where
  "str_nat n = (if n < 10 then [digit_char n] else str_nat (n div 10) @ [digit_char (n mod 10)])"
  by pat_completeness auto
termination
  by (relation "measure id") auto

declare str_nat.simps [simp del]

definition zfill2 :: "string \<Rightarrow> string" where
  "zfill2 s = replicate (2 - length s) (CHR ''0'') @ s"

definition comp_id :: "nat \<Rightarrow> string" where
  "comp_id k = ''C'' @ str_nat k"

definition sp_id :: "nat \<Rightarrow> string" where
  "sp_id k = ''SP-'' @ zfill2 (str_nat k)"

text \<open>Reading a decimal string back; used only to show that the renderings are injective.\<close>

definition digit_val :: "char \<Rightarrow> nat" where
  "digit_val c = of_char c - 48"

definition str_val :: "string \<Rightarrow> nat" where
  "str_val s = foldl (\<lambda>a c. 10 * a + digit_val c) 0 s"

section \<open>The geometry library\<close>

text \<open>
  Polygons, their areas, bounding boxes, intersections, splits and the containment test
  come from the geometry library the modules import (shapely); the repository holds none
  of it. The library is a parameter of every function below: a record of its operations
  over a type \<open>'g\<close> of geometries. An operation that can raise returns an option, with
  \<open>None\<close> for the exception. Floating-point numbers are modelled as reals.
\<close>

type_synonym point = "real \<times> real"

record 'g shapely =
  is_valid :: "'g \<Rightarrow> bool"
  area :: "'g \<Rightarrow> real"
  bounds :: "'g \<Rightarrow> (real \<times> real \<times> real \<times> real) option"
  box :: "real \<Rightarrow> real \<Rightarrow> real \<Rightarrow> real \<Rightarrow> 'g"
  boundary :: "'g \<Rightarrow> 'g"
  intersection :: "'g \<Rightarrow> 'g \<Rightarrow> 'g option"
  split :: "'g \<Rightarrow> 'g \<Rightarrow> 'g list option"
  contains :: "'g \<Rightarrow> point \<Rightarrow> bool"

section \<open>compartment\_generator.py\<close>

type_synonym 'g compartment = "'g \<times> string"

text \<open>
  \<^verbatim>\<open>_find_bisecting_line\<close>: the vertical cut through the middle of the bounding box if
  both halves have positive area, else the horizontal one, else \<^verbatim>\<open>None\<close>. The whole
  body stands in a \<^verbatim>\<open>try\<close> whose \<^verbatim>\<open>except\<close> returns \<^verbatim>\<open>None\<close>.
\<close>

definition find_bisecting_line :: "'g shapely \<Rightarrow> 'g \<Rightarrow> real \<Rightarrow> 'g option" where
  "find_bisecting_line L polygon target_area =
    (case bounds L polygon of
       None \<Rightarrow> None
     | Some (minx, miny, maxx, maxy) \<Rightarrow>
        (let mid_x = (minx + maxx) / 2;
             line = boundary L (box L (mid_x - 0.0001) (miny - 1) (mid_x + 0.0001) (maxy + 1))
         in case intersection L polygon (box L (minx - 1) (miny - 1) mid_x (maxy + 1)) of
              None \<Rightarrow> None
            | Some left \<Rightarrow>
               (case intersection L polygon (box L mid_x (miny - 1) (maxx + 1) (maxy + 1)) of
                  None \<Rightarrow> None
                | Some right \<Rightarrow>
                   if area L left > 0 \<and> area L right > 0 then Some line
                   else
                    (let mid_y = (miny + maxy) / 2;
                         line = boundary L
                                  (box L (minx - 1) (mid_y - 0.0001) (maxx + 1) (mid_y + 0.0001))
                     in case intersection L polygon (box L (minx - 1) mid_y (maxx + 1) (maxy + 1)) of
                          None \<Rightarrow> None
                        | Some top_g \<Rightarrow>
                           (case intersection L polygon
                                   (box L (minx - 1) (miny - 1) (maxx + 1) mid_y) of
                              None \<Rightarrow> None
                            | Some bottom_g \<Rightarrow>
                               if area L top_g > 0 \<and> area L bottom_g > 0 then Some line
                               else None)))))"

text \<open>
  \<^verbatim>\<open>_split_polygon\<close>: the first two pieces of the library's split; the polygon itself
  and \<^verbatim>\<open>None\<close> when there are fewer than two pieces or the split raises.
\<close>

definition split_polygon :: "'g shapely \<Rightarrow> 'g \<Rightarrow> 'g \<Rightarrow> 'g option \<times> 'g option" where
  "split_polygon L polygon line =
    (case split L polygon line of
       None \<Rightarrow> (Some polygon, None)
     | Some geoms \<Rightarrow>
        if length geoms \<ge> 2 then (Some (geoms ! 0), Some (geoms ! 1))
        else (Some polygon, None))"

text \<open>
  \<^verbatim>\<open>_recursive_bisection\<close>. The list \<^verbatim>\<open>compartments\<close> is one Python list, mutated
  by every call; here it is passed in and returned. The first call has
  \<^verbatim>\<open>compartments = []\<close> and \<^verbatim>\<open>depth = 0\<close>.
\<close>

function (domintros) recursive_bisection ::
  "'g shapely \<Rightarrow> 'g \<Rightarrow> int \<Rightarrow> real \<Rightarrow> 'g compartment list \<Rightarrow> nat \<Rightarrow> 'g compartment list"
where
  "recursive_bisection L polygon num_compartments target_area compartments depth =
    (if int (length compartments) \<ge> num_compartments then compartments
     else if \<bar>area L polygon - target_area\<bar> < target_area * 0.1 \<or> depth > 10
       then compartments @ [(polygon, comp_id (length compartments + 1))]
     else
      (case find_bisecting_line L polygon target_area of
         None \<Rightarrow> compartments @ [(polygon, comp_id (length compartments + 1))]
       | Some line \<Rightarrow>
          (case split_polygon L polygon line of
             (left, right) \<Rightarrow>
              (let compartments1 =
                     (case left of
                        None \<Rightarrow> compartments
                      | Some l \<Rightarrow>
                         if area L l > 0
                         then recursive_bisection L l num_compartments target_area
                                compartments (depth + 1)
                         else compartments);
                   compartments2 =
                     (case right of
                        None \<Rightarrow> compartments1
                      | Some r \<Rightarrow>
                         if area L r > 0
                         then recursive_bisection L r num_compartments target_area
                                compartments1 (depth + 1)
                         else compartments1)
               in compartments2))))"
  by pat_completeness auto
termination
  by (relation "measure (\<lambda>(L, polygon, n, t, cs, depth). 11 - depth)") auto

declare recursive_bisection.simps [simp del]

text \<open>
  \<^verbatim>\<open>_validate_compartments\<close> compares every area with the mean of the areas and logs
  a warning for each compartment further than 5\% from it. It raises nothing and changes
  nothing; its value here is the list of identifiers it warns about.
\<close>

definition mean :: "real list \<Rightarrow> real" where
  "mean xs = sum_list xs / real (length xs)"

definition validate_compartments :: "'g shapely \<Rightarrow> 'g compartment list \<Rightarrow> real \<Rightarrow> string list" where
  "validate_compartments L compartments target_area =
    (let areas = map (\<lambda>(poly, _). area L poly) compartments;
         mean_area = mean areas;
         tolerance = mean_area * 0.05
     in map snd (filter (\<lambda>(poly, cid). \<bar>area L poly - mean_area\<bar> > tolerance) compartments))"

text \<open>\<^verbatim>\<open>_create_compartment_geodataframe\<close>: one row per compartment.\<close>

type_synonym 'g compartment_row = "string \<times> real \<times> 'g"

definition create_compartment_geodataframe ::
  "'g shapely \<Rightarrow> 'g compartment list \<Rightarrow> 'g compartment_row list" where
  "create_compartment_geodataframe L compartments =
    map (\<lambda>(poly, cid). (cid, area L poly, poly)) compartments"


text \<open>
  \<^verbatim>\<open>total_area\<close> of \<^verbatim>\<open>get_compartment_statistics\<close>: the sum of the areas of the
  geometries of the rows.
\<close>

definition total_area :: "'g shapely \<Rightarrow> 'g compartment_row list \<Rightarrow> real" where
  "total_area L gdf = sum_list (map (\<lambda>(cid, a, g). area L g) gdf)"

text \<open>
  \<^verbatim>\<open>generate_compartments\<close>. Every exception of the body is caught and raised again
  as a \<^verbatim>\<open>ValueError\<close>; the cause is kept here. \<open>boundary_geom\<close> is the value of
  \<^verbatim>\<open>shape(boundary_geometry)\<close>, \<open>None\<close> when it raises. Dividing by
  \<^verbatim>\<open>num_compartments = 0\<close> raises \<^verbatim>\<open>ZeroDivisionError\<close>. Writing the file is the
  parameter \<open>to_file\<close>, false when it raises. The source returns the path of the file;
  the value here is the rows written to it.
\<close>

datatype cause =
  ShapeError | InvalidBoundaryGeometry | ZeroDivisionError | ToFileError
  | ReadFileError | EmptyCompartmentFile | BoundsError | ComplexToInt | UnknownColumn

datatype error = ValueError cause

definition generate_compartments ::
  "'g shapely \<Rightarrow> ('g compartment_row list \<Rightarrow> bool) \<Rightarrow> 'g option \<Rightarrow> int
     \<Rightarrow> error + 'g compartment_row list" where
  "generate_compartments L to_file boundary_geom num_compartments =
    (case boundary_geom of
       None \<Rightarrow> Inl (ValueError ShapeError)
     | Some g \<Rightarrow>
        if \<not> is_valid L g then Inl (ValueError InvalidBoundaryGeometry)
        else if num_compartments = 0 then Inl (ValueError ZeroDivisionError)
        else
         (let total_area = area L g;
              target_area = total_area / real_of_int num_compartments;
              compartments = recursive_bisection L g num_compartments target_area [] 0;
              warnings = validate_compartments L compartments target_area;
              gdf = create_compartment_geodataframe L compartments
          in if to_file gdf then Inr gdf else Inl (ValueError ToFileError)))"

section \<open>sample\_plot\_generator.py\<close>

text \<open>
  A sample plot is a Python dictionary with these five keys. Its \<^verbatim>\<open>compartment_id\<close>
  is what the loop of \<^verbatim>\<open>generate_sample_plots\<close> read from the row of the compartment
  file: a string, or null (here \<open>None\<close>) when the file has the column and the row has no
  value in it.
\<close>

record plot =
  plot_id :: string
  compartment_id :: "string option"
  geometry :: point
  latitude :: real
  longitude :: real

text \<open>
  The generator has two pieces of state: its field \<^verbatim>\<open>plot_counter\<close>, and the state of
  Python's random number generator. The generator is a parameter \<open>rnd\<close>: \<open>rnd k\<close> is the
  value of the \<open>k\<close>-th call of \<^verbatim>\<open>random.random()\<close>, and \<open>draws\<close> counts the calls so
  far. \<^verbatim>\<open>random.uniform(a, b)\<close> is \<^verbatim>\<open>a + (b - a) * random()\<close>.
\<close>

record sampler =
  plot_counter :: nat
  draws :: nat

definition uniform :: "(nat \<Rightarrow> real) \<Rightarrow> nat \<Rightarrow> real \<Rightarrow> real \<Rightarrow> real" where
  "uniform rnd k a b = a + (b - a) * rnd k"

text \<open>Python's \<^verbatim>\<open>round\<close> of a float to an integer rounds a tie to the even neighbour.\<close>

definition py_round :: "real \<Rightarrow> int" where
  "py_round x =
    (let f = \<lfloor>x\<rfloor>; d = x - of_int f
     in if d < 1 / 2 then f else if d > 1 / 2 then f + 1 else if even f then f else f + 1)"

text \<open>
  \<^verbatim>\<open>int(num_plots ** 0.5)\<close> for \<^verbatim>\<open>num_plots >= 0\<close>: the largest \<open>k\<close> with
  \<open>k * k \<le> num_plots\<close>, found here by counting up.
\<close>

function isqrt_from :: "nat \<Rightarrow> nat \<Rightarrow> nat" where
  "isqrt_from n k = (if (k + 1) * (k + 1) \<le> n then isqrt_from n (k + 1) else k)"
  by pat_completeness auto
termination
proof (relation "measure (\<lambda>(n, k). n - k)")
  show "wf (measure (\<lambda>(n, k). n - k))" by simp
next
  fix n k :: nat
  assume a: "(k + 1) * (k + 1) \<le> n"
  have "k + 1 \<le> (k + 1) * (k + 1)" by simp
  with a have "k + 1 \<le> n" by linarith
  then show "((n, k + 1), (n, k)) \<in> measure (\<lambda>(n, k). n - k)" by simp
qed

declare isqrt_from.simps [simp del]

definition isqrt :: "nat \<Rightarrow> nat" where
  "isqrt n = isqrt_from n 0"

text \<open>
  \<^verbatim>\<open>_generate_systematic_plots\<close>. The inner loop runs over \<open>j\<close>, the outer over \<open>i\<close>;
  both stop as soon as \<^verbatim>\<open>len(plots) >= num_plots\<close>. The pair passed through the loops
  is the list \<^verbatim>\<open>plots\<close> and \<^verbatim>\<open>self.plot_counter\<close>.
\<close>

fun systematic_inner ::
  "'g shapely \<Rightarrow> 'g \<Rightarrow> string option \<Rightarrow> int \<Rightarrow> real \<Rightarrow> real \<Rightarrow> real \<Rightarrow> real \<Rightarrow> nat
     \<Rightarrow> nat list \<Rightarrow> plot list \<times> nat \<Rightarrow> plot list \<times> nat" where
  "systematic_inner L g cid num_plots minx miny x_step y_step i [] (plots, counter) =
     (plots, counter)"
| "systematic_inner L g cid num_plots minx miny x_step y_step i (j # js) (plots, counter) =
     (if int (length plots) \<ge> num_plots then (plots, counter)
      else
       (let x = minx + (real i + 0.5) * x_step;
            y = miny + (real j + 0.5) * y_step;
            point = (x, y)
        in systematic_inner L g cid num_plots minx miny x_step y_step i js
             (if contains L g point
              then (plots @ [\<lparr>plot_id = sp_id (counter + 1), compartment_id = cid,
                              geometry = point, latitude = y, longitude = x\<rparr>],
                    counter + 1)
              else (plots, counter))))"

fun systematic_outer ::
  "'g shapely \<Rightarrow> 'g \<Rightarrow> string option \<Rightarrow> int \<Rightarrow> real \<Rightarrow> real \<Rightarrow> real \<Rightarrow> real \<Rightarrow> nat
     \<Rightarrow> nat list \<Rightarrow> plot list \<times> nat \<Rightarrow> plot list \<times> nat" where
  "systematic_outer L g cid num_plots minx miny x_step y_step grid_size [] st = st"
| "systematic_outer L g cid num_plots minx miny x_step y_step grid_size (i # is) st =
     (let st' = systematic_inner L g cid num_plots minx miny x_step y_step i [0..<grid_size] st
      in if int (length (fst st')) \<ge> num_plots then st'
         else systematic_outer L g cid num_plots minx miny x_step y_step grid_size is st')"

text \<open>The cell centres of the grid, in the order the two loops visit them.\<close>

definition grid_points :: "real \<Rightarrow> real \<Rightarrow> real \<Rightarrow> real \<Rightarrow> nat \<Rightarrow> point list" where
  "grid_points minx miny x_step y_step grid_size =
     concat (map (\<lambda>i. map (\<lambda>j. (minx + (real i + 0.5) * x_step, miny + (real j + 0.5) * y_step))
                          [0..<grid_size]) [0..<grid_size])"

text \<open>
  For a negative \<^verbatim>\<open>num_plots\<close>, \<^verbatim>\<open>num_plots ** 0.5\<close> is a complex number and
  \<^verbatim>\<open>int\<close> of it raises \<^verbatim>\<open>TypeError\<close>.
\<close>

definition generate_systematic_plots ::
  "'g shapely \<Rightarrow> 'g \<Rightarrow> string option \<Rightarrow> int \<Rightarrow> nat \<Rightarrow> cause + plot list \<times> nat" where
  "generate_systematic_plots L compartment_geometry cid num_plots counter =
    (case bounds L compartment_geometry of
       None \<Rightarrow> Inl BoundsError
     | Some (minx, miny, maxx, maxy) \<Rightarrow>
        if num_plots < 0 then Inl ComplexToInt
        else
         (let grid_size = isqrt (nat num_plots) + 1;
              x_step = (maxx - minx) / real grid_size;
              y_step = (maxy - miny) / real grid_size
          in Inr (systematic_outer L compartment_geometry cid num_plots minx miny x_step y_step
                    grid_size [0..<grid_size] ([], counter))))"

text \<open>
  \<^verbatim>\<open>_generate_random_plots\<close>. The loop, with its variables \<^verbatim>\<open>plots\<close> and
  \<^verbatim>\<open>attempts\<close> and the generator's state; it returns them as they are when it ends.
  A shortfall is logged as a warning and the plots found are returned.
\<close>

function (domintros) random_loop ::
  "'g shapely \<Rightarrow> (nat \<Rightarrow> real) \<Rightarrow> 'g \<Rightarrow> string option \<Rightarrow> int \<Rightarrow> real \<Rightarrow> real \<Rightarrow> real \<Rightarrow> real
     \<Rightarrow> int \<Rightarrow> plot list \<Rightarrow> int \<Rightarrow> sampler \<Rightarrow> plot list \<times> int \<times> sampler" where
  "random_loop L rnd g cid num_plots minx miny maxx maxy max_attempts plots attempts st =
    (if int (length plots) < num_plots \<and> attempts < max_attempts
     then
      (let x = uniform rnd (draws st) minx maxx;
           y = uniform rnd (draws st + 1) miny maxy;
           point = (x, y)
       in if contains L g point
          then random_loop L rnd g cid num_plots minx miny maxx maxy max_attempts
                 (plots @ [\<lparr>plot_id = sp_id (plot_counter st + 1), compartment_id = cid,
                             geometry = point, latitude = y, longitude = x\<rparr>])
                 (attempts + 1)
                 \<lparr>plot_counter = plot_counter st + 1, draws = draws st + 2\<rparr>
          else random_loop L rnd g cid num_plots minx miny maxx maxy max_attempts
                 plots (attempts + 1) (st\<lparr>draws := draws st + 2\<rparr>))
     else (plots, attempts, st))"
  by pat_completeness auto
termination
  by (relation "measure (\<lambda>(L, rnd, g, cid, n, minx, miny, maxx, maxy, max_attempts, plots,
        attempts, st). nat (max_attempts - attempts))") auto

declare random_loop.simps [simp del]

definition generate_random_plots ::
  "'g shapely \<Rightarrow> (nat \<Rightarrow> real) \<Rightarrow> 'g \<Rightarrow> string option \<Rightarrow> int \<Rightarrow> sampler
     \<Rightarrow> cause + plot list \<times> sampler" where
  "generate_random_plots L rnd compartment_geometry cid num_plots st =
    (case bounds L compartment_geometry of
       None \<Rightarrow> Inl BoundsError
     | Some (minx, miny, maxx, maxy) \<Rightarrow>
        (let max_attempts = num_plots * 10
         in case random_loop L rnd compartment_geometry cid num_plots minx miny maxx maxy
                   max_attempts [] 0 st of
              (plots, attempts, st') \<Rightarrow> Inr (plots, st')))"

text \<open>\<^verbatim>\<open>_generate_plots_for_compartment\<close>: the method is compared with one string.\<close>

definition generate_plots_for_compartment ::
  "'g shapely \<Rightarrow> (nat \<Rightarrow> real) \<Rightarrow> 'g \<Rightarrow> string option \<Rightarrow> int \<Rightarrow> string \<Rightarrow> sampler
     \<Rightarrow> cause + plot list \<times> sampler" where
  "generate_plots_for_compartment L rnd compartment_geometry cid num_plots distribution_method st =
    (if distribution_method = ''systematic''
     then
      (case generate_systematic_plots L compartment_geometry cid num_plots (plot_counter st) of
         Inl e \<Rightarrow> Inl e
       | Inr (plots, counter) \<Rightarrow> Inr (plots, st\<lparr>plot_counter := counter\<rparr>))
     else generate_random_plots L rnd compartment_geometry cid num_plots st)"

text \<open>
  The compartment file as \<^verbatim>\<open>gpd.read_file\<close> returns it: a table in which every row has
  the same columns. Either the table has a column \<^verbatim>\<open>compartment_id\<close>, and every row
  holds a string or null in it (a feature of the file without the property reads as
  null), or it has no such column. \<^verbatim>\<open>iterrows\<close> yields the rows in order with their
  index \<open>0, 1, \<dots>\<close>; the first component of a row here is the outcome of looking the key
  \<^verbatim>\<open>compartment_id\<close> up in it: \<open>None\<close> when the row has no such key.
\<close>

datatype 'g geodataframe =
    IdColumn "(string option \<times> 'g) list"
  | NoIdColumn "'g list"

fun iterrows :: "'g geodataframe \<Rightarrow> (string option option \<times> 'g) list" where
  "iterrows (IdColumn rows) = map (\<lambda>(cid, geom). (Some cid, geom)) rows"
| "iterrows (NoIdColumn geoms) = map (\<lambda>geom. (None, geom)) geoms"

text \<open>
  The loop of \<^verbatim>\<open>generate_sample_plots\<close> over the rows. The identifier is
  \<^verbatim>\<open>row.get('compartment_id', f'C{idx+1}')\<close>: the value of the row, null included, when
  the row has the key, and the default only when it has not.
\<close>

fun sample_rows ::
  "'g shapely \<Rightarrow> (nat \<Rightarrow> real) \<Rightarrow> real \<Rightarrow> int \<Rightarrow> string \<Rightarrow> nat
     \<Rightarrow> (string option option \<times> 'g) list
     \<Rightarrow> plot list \<times> sampler \<Rightarrow> cause + plot list \<times> sampler" where
  "sample_rows L rnd sampling_intensity min_plots method idx [] (sample_plots, st) =
     Inr (sample_plots, st)"
| "sample_rows L rnd sampling_intensity min_plots method idx ((looked_up, geom) # rows)
     (sample_plots, st) =
     (let cid = (case looked_up of Some v \<Rightarrow> v | None \<Rightarrow> Some (comp_id (idx + 1)));
          area_m2 = area L geom;
          num_plots = max min_plots (py_round (area_m2 * sampling_intensity / 10000))
      in case generate_plots_for_compartment L rnd geom cid num_plots method st of
           Inl e \<Rightarrow> Inl e
         | Inr (plots, st') \<Rightarrow>
            sample_rows L rnd sampling_intensity min_plots method (idx + 1) rows
              (sample_plots @ plots, st'))"

text \<open>
  \<^verbatim>\<open>generate_sample_plots\<close>. \<open>gdf_compartments\<close> is what \<^verbatim>\<open>gpd.read_file\<close> returned,
  \<open>None\<close> when it raises; \<open>to_file\<close> is the writing of the plots, false when it raises.
  The counter is set to 0 first; \<open>seed\<close> is the number of draws made from the random
  number generator before the request. With no plot at all,
  \<^verbatim>\<open>gpd.GeoDataFrame([], geometry='geometry', ...)\<close> builds a table without columns,
  finds no column \<^verbatim>\<open>geometry\<close> in it and raises. Every exception is raised again as a
  \<^verbatim>\<open>ValueError\<close>.
  The source returns the path of the file; the value here is the plots written to it.
\<close>

definition generate_sample_plots ::
  "'g shapely \<Rightarrow> (nat \<Rightarrow> real) \<Rightarrow> (plot list \<Rightarrow> bool) \<Rightarrow> 'g geodataframe option
     \<Rightarrow> real \<Rightarrow> int \<Rightarrow> string \<Rightarrow> nat \<Rightarrow> error + plot list" where
  "generate_sample_plots L rnd to_file gdf_compartments sampling_intensity
      min_plots_per_compartment distribution_method seed =
    (case gdf_compartments of
       None \<Rightarrow> Inl (ValueError ReadFileError)
     | Some gdf \<Rightarrow>
        if iterrows gdf = [] then Inl (ValueError EmptyCompartmentFile)
        else
         (case sample_rows L rnd sampling_intensity min_plots_per_compartment
                 distribution_method 0 (iterrows gdf) ([], \<lparr>plot_counter = 0, draws = seed\<rparr>) of
            Inl e \<Rightarrow> Inl (ValueError e)
          | Inr (sample_plots, st) \<Rightarrow>
             if sample_plots = [] then Inl (ValueError UnknownColumn)
             else if to_file sample_plots then Inr sample_plots
             else Inl (ValueError ToFileError)))"

text \<open>The rows with their identifiers, as the loop resolves them.\<close>

fun resolve_ids ::
  "nat \<Rightarrow> (string option option \<times> 'g) list \<Rightarrow> (string option \<times> 'g) list" where
  "resolve_ids idx [] = []"
| "resolve_ids idx ((looked_up, geom) # rows) =
     ((case looked_up of Some v \<Rightarrow> v | None \<Rightarrow> Some (comp_id (idx + 1))), geom)
       # resolve_ids (idx + 1) rows"

text \<open>The plot appended by either placement method for an accepted point.\<close>

definition new_plot :: "nat \<Rightarrow> string option \<Rightarrow> real \<Rightarrow> real \<Rightarrow> plot" where
  "new_plot counter cid x y =
     \<lparr>plot_id = sp_id (counter + 1), compartment_id = cid, geometry = (x, y),
      latitude = y, longitude = x\<rparr>"

text \<open>The plots so far carry the identifiers \<open>SP-01\<close>, \<open>SP-02\<close>, \<dots> in order, and the counter is their number.\<close>

definition numbered :: "plot list \<times> nat \<Rightarrow> bool" where
  "numbered = (\<lambda>(plots, c). c = length plots \<and> map plot_id plots = map sp_id [1..<Suc c])"

text \<open>
  The sampling planner in the words of the specification:
  \<open>count = max(minimum, round(compartment_area * intensity / 10000))\<close>.
\<close>

definition plan :: "real \<Rightarrow> real \<Rightarrow> int \<Rightarrow> int" where
  "plan compartment_area intensity minimum =
     max minimum (py_round (compartment_area * intensity / 10000))"

section \<open>The two properties of a partition\<close>

text \<open>
  Every area lies within 5\% of the mean of the areas; and the areas sum to the area of the
  boundary polygon within a relative tolerance of \<open>10\<^sup>-\<^sup>6\<close>.
\<close>

definition area_balanced :: "'g compartment_row list \<Rightarrow> bool" where
  "area_balanced gdf =
     list_all (\<lambda>(cid, a, g). \<bar>a - mean (map (\<lambda>(cid, a, g). a) gdf)\<bar>
                  \<le> 0.05 * mean (map (\<lambda>(cid, a, g). a) gdf)) gdf"


section \<open>A geometry library for convex polygons\<close>

text \<open>
  Concrete inputs need a concrete library. This one has exact arithmetic and two kinds of
  geometry: a convex polygon, given by its corners in order, and a linear geometry (the
  boundary of a polygon), which has no area. It covers what the two modules ask of the
  library on convex polygons: the shoelace area, the bounding box, the intersection of
  two convex polygons (by clipping against each edge), the strict containment test, the
  validity test, and the split of a polygon by the boundary of a box that reaches over the
  polygon's bounding box on one axis. Polygons that are not convex are outside of it: it
  reports them as not valid.
\<close>

datatype geom = Polygon "point list" | Linear "point list"

definition edges :: "point list \<Rightarrow> (point \<times> point) list" where
  "edges vs = (case vs of [] \<Rightarrow> [] | v # rest \<Rightarrow> zip vs (rest @ [v]))"

definition signed_area :: "point list \<Rightarrow> real" where
  "signed_area vs = (\<Sum>(a, b)\<leftarrow>edges vs. fst a * snd b - fst b * snd a) / 2"

definition ccw :: "point list \<Rightarrow> point list" where
  "ccw vs = (if signed_area vs < 0 then rev vs else vs)"

text \<open>Positive when \<open>p\<close> lies to the left of the line from \<open>a\<close> to \<open>b\<close>.\<close>

definition cross :: "point \<Rightarrow> point \<Rightarrow> point \<Rightarrow> real" where
  "cross a b p = (fst b - fst a) * (snd p - snd a) - (snd b - snd a) * (fst p - fst a)"

text \<open>The part of a polygon on or to the left of the line from \<open>a\<close> to \<open>b\<close>.\<close>

definition clip :: "point \<Rightarrow> point \<Rightarrow> point list \<Rightarrow> point list" where
  "clip a b vs =
    concat (map (\<lambda>(p, q).
      (if cross a b p \<ge> 0 then [p] else []) @
      (if (cross a b p > 0 \<and> cross a b q < 0) \<or> (cross a b p < 0 \<and> cross a b q > 0)
       then [(fst p + cross a b p / (cross a b p - cross a b q) * (fst q - fst p),
              snd p + cross a b p / (cross a b p - cross a b q) * (snd q - snd p))]
       else [])) (edges vs))"

definition clip_all :: "point list \<Rightarrow> point list \<Rightarrow> point list" where
  "clip_all ws vs = fold (\<lambda>(a, b) acc. clip a b acc) (edges (ccw ws)) vs"

definition min_list :: "real list \<Rightarrow> real" where
  "min_list xs = fold min (tl xs) (hd xs)"

definition max_list :: "real list \<Rightarrow> real" where
  "max_list xs = fold max (tl xs) (hd xs)"

fun geom_points :: "geom \<Rightarrow> point list" where
  "geom_points (Polygon vs) = vs"
| "geom_points (Linear vs) = vs"

fun geom_area :: "geom \<Rightarrow> real" where
  "geom_area (Polygon vs) = \<bar>signed_area vs\<bar>"
| "geom_area (Linear vs) = 0"

definition geom_bounds :: "geom \<Rightarrow> (real \<times> real \<times> real \<times> real) option" where
  "geom_bounds g =
    (let vs = geom_points g
     in if vs = [] then None
        else Some (min_list (map fst vs), min_list (map snd vs),
                   max_list (map fst vs), max_list (map snd vs)))"

definition geom_box :: "real \<Rightarrow> real \<Rightarrow> real \<Rightarrow> real \<Rightarrow> geom" where
  "geom_box minx miny maxx maxy = Polygon [(maxx, miny), (maxx, maxy), (minx, maxy), (minx, miny)]"

fun geom_boundary :: "geom \<Rightarrow> geom" where
  "geom_boundary (Polygon vs) = Linear (case vs of [] \<Rightarrow> [] | v # rest \<Rightarrow> vs @ [v])"
| "geom_boundary (Linear vs) = Linear []"

fun geom_intersection :: "geom \<Rightarrow> geom \<Rightarrow> geom option" where
  "geom_intersection (Polygon vs) (Polygon ws) = Some (Polygon (clip_all ws vs))"
| "geom_intersection _ _ = Some (Linear [])"

text \<open>
  The corners of a polygon, each once: a point that repeats the point before it, and a
  last point that closes the ring by repeating the first, are left out.
\<close>

definition ring :: "point list \<Rightarrow> point list" where
  "ring vs =
    (let ws = remdups_adj vs
     in if 1 < length ws \<and> hd ws = last ws then butlast ws else ws)"

text \<open>A point is contained if it lies in the interior: strictly to the left of every edge.\<close>

fun geom_contains :: "geom \<Rightarrow> point \<Rightarrow> bool" where
  "geom_contains (Polygon vs) p =
     (ring vs \<noteq> [] \<and> list_all (\<lambda>(a, b). cross a b p > 0) (edges (ccw (ring vs))))"
| "geom_contains (Linear vs) p = False"

text \<open>
  A polygon is valid if it has at least three corners, no corner twice, an area, and no
  corner to the right of the line through an edge: then it is convex and does not cross
  or touch itself. A corner may lie in the middle of a side.
\<close>

fun geom_is_valid :: "geom \<Rightarrow> bool" where
  "geom_is_valid (Polygon vs) =
     (let ws = ccw (ring vs)
      in length ws \<ge> 3 \<and> distinct ws \<and> signed_area ws \<noteq> 0 \<and>
         list_all (\<lambda>(a, b). list_all (\<lambda>p. cross a b p \<ge> 0) ws) (edges ws))"
| "geom_is_valid (Linear vs) = True"

text \<open>
  The split of a polygon by the boundary of the box \<open>[x0, x1] \<times> [y0, y1]\<close>. When the box
  reaches over the polygon's bounding box in \<open>y\<close>, the pieces are the part left of
  \<open>x0\<close>, the part inside the box and the part right of \<open>x1\<close>; when it reaches over
  it in \<open>x\<close>, the parts below, inside and above. Only pieces with an area are pieces.
  Nothing in the repository fixes the order in which the library lists the pieces; \<open>ord\<close>
  lists them (by their numbers 0, 1, 2 in the order just given). Other splits are not
  covered and raise.
\<close>

fun geom_split :: "nat list \<Rightarrow> geom \<Rightarrow> geom \<Rightarrow> geom list option" where
  "geom_split ord (Polygon vs) (Linear [(x1, y0), (x1', y1), (x0, y1'), (x0', y0'), (x1'', y0'')]) =
     (case geom_bounds (Polygon vs) of
        None \<Rightarrow> None
      | Some (minx, miny, maxx, maxy) \<Rightarrow>
         if x1' = x1 \<and> x1'' = x1 \<and> x0' = x0 \<and> y1' = y1 \<and> y0' = y0 \<and> y0'' = y0
            \<and> x0 < x1 \<and> y0 < y1
         then
          (let inside = clip_all [(x1, y0), (x1, y1), (x0, y1), (x0, y0)] vs;
               cands =
                 (if y0 < miny \<and> maxy < y1
                  then Some [clip (x0, y0) (x0, y1) vs, inside, clip (x1, y1) (x1, y0) vs]
                  else if x0 < minx \<and> maxx < x1
                  then Some [clip (x1, y0) (x0, y0) vs, inside, clip (x0, y1) (x1, y1) vs]
                  else None)
           in case cands of
                None \<Rightarrow> None
              | Some cs \<Rightarrow>
                 Some (filter (\<lambda>g. geom_area g > 0) (map (\<lambda>i. Polygon (cs ! i)) ord)))
         else None)"
| "geom_split ord _ _ = None"

definition convex_lib :: "nat list \<Rightarrow> geom shapely" where
  "convex_lib ord =
    \<lparr>is_valid = geom_is_valid, area = geom_area, bounds = geom_bounds, box = geom_box,
     boundary = geom_boundary, intersection = geom_intersection, split = geom_split ord,
     contains = geom_contains\<rparr>"

text \<open>
  shapely lists the pieces of such a split in the order in which they lie: the part left
  of the box, the strip inside it, the part right of it. \<open>lib\<close> is the library with that
  order. What is shown below of a split with \<open>lib\<close> is shown for the other five orders
  as well.
\<close>

definition lib :: "geom shapely" where
  "lib = convex_lib [0, 1, 2]"

subsection \<open>Concrete polygons\<close>

text \<open>
  A trapezoid of area 2 whose left half is larger than its right half, the cut through
  the middle of its bounding box, and the two pieces left and right of the cut.
\<close>

definition trapezoid :: geom where
  "trapezoid = Polygon [(0, 0), (2, 0), (2, 0.82), (0, 1.18)]"

definition trapezoid_cut :: geom where
  "trapezoid_cut =
     Linear [(1.0001, - 1), (1.0001, 2.18), (0.9999, 2.18), (0.9999, - 1), (1.0001, - 1)]"

definition trapezoid_left :: geom where
  "trapezoid_left = Polygon [(0, 0), (0.9999, 0), (0.9999, 1.000018), (0, 1.18)]"

definition trapezoid_right :: geom where
  "trapezoid_right = Polygon [(1.0001, 0), (2, 0), (2, 0.82), (1.0001, 0.999982)]"

text \<open>
  The strip of the trapezoid inside the box of the cut, the cut through the middle of the
  strip, whose box is exactly as wide as the strip, and the six orders in which a split
  can list its three pieces.
\<close>

definition trapezoid_strip :: geom where
  "trapezoid_strip =
     Polygon [(0.9999, 0), (1.0001, 0), (1.0001, 0.999982), (0.9999, 1.000018)]"

definition strip_cut :: geom where
  "strip_cut =
     Linear [(1.0001, - 1), (1.0001, 2.000018), (0.9999, 2.000018), (0.9999, - 1), (1.0001, - 1)]"

definition piece_orders :: "nat list list" where
  "piece_orders = [[0, 1, 2], [0, 2, 1], [1, 0, 2], [1, 2, 0], [2, 0, 1], [2, 1, 0]]"

text \<open>
  A compartment file without a column \<^verbatim>\<open>compartment_id\<close> whose two rows hold the left
  and the right piece of the trapezoid; a random number generator that always returns one
  half; and the plots the two placement methods make of them for two plots per
  compartment.
\<close>

definition half_rnd :: "nat \<Rightarrow> real" where
  "half_rnd k = 1 / 2"

definition two_rows :: "geom geodataframe" where
  "two_rows = NoIdColumn [trapezoid_left, trapezoid_right]"

definition four_plots :: "plot list" where
  "four_plots =
     [new_plot 0 (Some ''C1'') 0.49995 0.59, new_plot 1 (Some ''C1'') 0.49995 0.59,
      new_plot 2 (Some ''C2'') 1.50005 0.499991, new_plot 3 (Some ''C2'') 1.50005 0.499991]"

definition grid_plots :: "plot list" where
  "grid_plots =
     [new_plot 0 (Some ''C1'') 0.249975 0.295, new_plot 1 (Some ''C1'') 0.249975 0.885,
      new_plot 2 (Some ''C2'') 1.250075 0.2499955, new_plot 3 (Some ''C2'') 1.250075 0.7499865]"

text \<open>
  A slanted band: a parallelogram of area 6 around the diagonal of its bounding box, which
  holds three of the nine cell centres of a grid of three by three. A compartment file
  whose one row is the band, with the identifier \<open>C1\<close>, and the plots the systematic
  method places in the band when five are asked for.
\<close>

definition band :: geom where
  "band = Polygon [(0, 0), (1, 0), (6, 6), (5, 6)]"

definition band_file :: "geom geodataframe" where
  "band_file = IdColumn [(Some ''C1'', band)]"

definition band_plots :: "plot list" where
  "band_plots =
     [new_plot 0 (Some ''C1'') 1 1, new_plot 1 (Some ''C1'') 3 3, new_plot 2 (Some ''C1'') 5 5]"

text \<open>
  The rows written for the trapezoid cut into two: the part left of the cut and the strip
  inside the box of the cut. A quadrilateral that crosses itself, and a square with a
  fifth corner in the middle of a side.
\<close>

definition trapezoid_rows :: "geom compartment_row list" where
  "trapezoid_rows =
     [(''C1'', 1.0898999991, trapezoid_left), (''C2'', 0.0002, trapezoid_strip)]"

definition square5 :: geom where
  "square5 = Polygon [(0, 0), (1, 0), (2, 0), (2, 2), (0, 2)]"

definition bowtie :: geom where
  "bowtie = Polygon [(0, 0), (2, 2), (2, 0), (0, 2)]"

text \<open>
  A random number generator that returns 0.9 and 0.1 in turn, so that every point drawn in
  the bounding box of the band is the point (5.4, 0.6), which lies outside the band.
\<close>

definition dodging_rnd :: "nat \<Rightarrow> real" where
  "dodging_rnd k = (if even k then 0.9 else 0.1)"

section \<open>Properties\<close>

lemma digit_roundtrip_all: "list_all (\<lambda>d. digit_val (digit_char d) = d) [0..<10]"
  by code_simp

lemma digit_roundtrip: "d < 10 \<Longrightarrow> digit_val (digit_char d) = d"
  using digit_roundtrip_all by (simp add: list_all_iff)

lemma str_val_snoc: "str_val (s @ [c]) = 10 * str_val s + digit_val c"
  by (simp add: str_val_def)

lemma str_nat_val: "str_val (str_nat n) = n"
proof (induction n rule: str_nat.induct)
  case (1 n)
  show ?case
  proof (cases "n < 10")
    case True
    then show ?thesis
      by (subst str_nat.simps) (simp add: str_val_def digit_roundtrip)
  next
    case False
    have "str_val (str_nat n) = 10 * str_val (str_nat (n div 10)) + digit_val (digit_char (n mod 10))"
      using False by (subst str_nat.simps) (simp add: str_val_snoc)
    then show ?thesis using 1 False by (simp add: digit_roundtrip)
  qed
qed

lemma str_nat_inj: "str_nat a = str_nat b \<Longrightarrow> a = b"
  by (metis str_nat_val)

lemma comp_id_inj: "inj comp_id"
  by (auto simp: inj_on_def comp_id_def dest: str_nat_inj)

subsection \<open>The integer square root\<close>

text \<open>\<open>isqrt\<close> is the floor of the square root, as \<^verbatim>\<open>int(num_plots ** 0.5)\<close> is.\<close>

lemma isqrt_from_bounds:
  "k * k \<le> n \<Longrightarrow>
   isqrt_from n k * isqrt_from n k \<le> n \<and> n < (isqrt_from n k + 1) * (isqrt_from n k + 1)"
proof (induction n k rule: isqrt_from.induct)
  case (1 n k)
  have e: "isqrt_from n k = (if (k + 1) * (k + 1) \<le> n then isqrt_from n (k + 1) else k)"
    by (rule isqrt_from.simps)
  show ?case
  proof (cases "(k + 1) * (k + 1) \<le> n")
    case True
    then have "isqrt_from n k = isqrt_from n (k + 1)" using e by simp
    with "1.IH"[OF True True] show ?thesis by simp
  next
    case False
    then have "isqrt_from n k = k" using e by simp
    with False "1.prems" show ?thesis by simp
  qed
qed

lemma isqrt_floor_sqrt: "int (isqrt n) = \<lfloor>sqrt (real n)\<rfloor>"
proof -
  let ?r = "isqrt n"
  from isqrt_from_bounds[of 0 n] have b: "?r * ?r \<le> n" "n < (?r + 1) * (?r + 1)"
    by (simp_all add: isqrt_def)
  have lo: "real ?r \<le> sqrt (real n)"
  proof (rule real_le_rsqrt)
    have "real (?r * ?r) \<le> real n" using b(1) by (simp only: of_nat_le_iff)
    then show "(real ?r)\<^sup>2 \<le> real n" by (simp add: power2_eq_square)
  qed
  have hi: "sqrt (real n) < real ?r + 1"
  proof (rule real_less_lsqrt)
    have "real n < real ((?r + 1) * (?r + 1))" using b(2) by (simp only: of_nat_less_iff)
    then show "real n < (real ?r + 1)\<^sup>2" by (simp add: power2_eq_square algebra_simps)
  qed simp
  have "\<lfloor>sqrt (real n)\<rfloor> = int ?r"
    by (rule floor_unique) (use lo hi in simp_all)
  then show ?thesis by simp
qed

subsection \<open>Unfolding the recursive bisection\<close>

lemma recursive_bisection_stop:
  "n \<le> int (length cs) \<Longrightarrow> recursive_bisection L p n t cs d = cs"
  by (subst recursive_bisection.simps) simp

lemma recursive_bisection_accept:
  "\<not> n \<le> int (length cs) \<Longrightarrow>
   \<bar>area L p - t\<bar> < t * 0.1 \<or> 10 < d \<or> find_bisecting_line L p t = None \<Longrightarrow>
   recursive_bisection L p n t cs d = cs @ [(p, comp_id (length cs + 1))]"
  by (subst recursive_bisection.simps) auto

lemma recursive_bisection_split:
  assumes "\<not> n \<le> int (length cs)"
    and "\<not> (\<bar>area L p - t\<bar> < t * 0.1 \<or> 10 < d)"
    and "find_bisecting_line L p t = Some line"
    and "split_polygon L p line = (left, right)"
  shows "recursive_bisection L p n t cs d =
     (let cs1 = (case left of None \<Rightarrow> cs
            | Some l \<Rightarrow> if 0 < area L l then recursive_bisection L l n t cs (d + 1) else cs)
      in case right of None \<Rightarrow> cs1
      | Some r \<Rightarrow> if 0 < area L r then recursive_bisection L r n t cs1 (d + 1) else cs1)"
  using assms by (subst recursive_bisection.simps) (simp add: Let_def)

lemma recursive_bisection_split_eq:
  assumes "\<not> n \<le> int (length cs)"
    and "\<not> (\<bar>area L p - t\<bar> < t * 0.1 \<or> 10 < d)"
    and "find_bisecting_line L p t = Some line"
    and "split_polygon L p line = (left, right)"
    and "cs1 = (case left of None \<Rightarrow> cs
            | Some l \<Rightarrow> if 0 < area L l then recursive_bisection L l n t cs (d + 1) else cs)"
    and "cs2 = (case right of None \<Rightarrow> cs1
            | Some r \<Rightarrow> if 0 < area L r then recursive_bisection L r n t cs1 (d + 1) else cs1)"
  shows "recursive_bisection L p n t cs d = cs2"
  unfolding assms(5,6) recursive_bisection_split[OF assms(1-4)] Let_def ..

text \<open>
  Whatever holds of the list at the start and is kept by appending the next compartment
  holds of the list at the end.
\<close>

lemma recursive_bisection_invariant:
  assumes step: "\<And>cs q. int (length cs) < n \<Longrightarrow> P cs \<Longrightarrow> P (cs @ [(q, comp_id (length cs + 1))])"
    and init: "P cs0"
  shows "P (recursive_bisection L p n t cs0 d)"
  using init step
proof (induction L p n t cs0 d rule: recursive_bisection.induct)
  case (1 L polygon n t cs depth)
  note init = "1.prems"(1) and step = "1.prems"(2)
  show ?case
  proof (cases "n \<le> int (length cs)")
    case True
    then show ?thesis using init by (simp add: recursive_bisection_stop)
  next
    case more: False
    then have "int (length cs) < n" by simp
    from step[OF this init]
    have app: "P (cs @ [(polygon, comp_id (length cs + 1))])" .
    show ?thesis
    proof (cases "\<bar>area L polygon - t\<bar> < t * 0.1 \<or> 10 < depth \<or> find_bisecting_line L polygon t = None")
      case True
      then show ?thesis using recursive_bisection_accept[OF more True] app
        by simp
    next
      case False
      then have deep: "\<not> (\<bar>area L polygon - t\<bar> < t * (1 / 10) \<or> 10 < depth)" by simp
      from False obtain line where Some: "find_bisecting_line L polygon t = Some line" by auto
      obtain left right where sp: "(left, right) = split_polygon L polygon line"
        by (cases "split_polygon L polygon line") auto
      define cs1 where "cs1 = (case left of None \<Rightarrow> cs
          | Some l \<Rightarrow> if 0 < area L l then recursive_bisection L l n t cs (depth + 1) else cs)"
      have p1: "P cs1"
        unfolding cs1_def using "1.IH"(1)[OF more deep Some sp _ _ init step] init
        by (auto split: option.splits)
      have p2: "P (case right of None \<Rightarrow> cs1
          | Some r \<Rightarrow> if 0 < area L r then recursive_bisection L r n t cs1 (depth + 1) else cs1)"
        using "1.IH"(2)[OF more deep Some sp cs1_def _ _ p1 step] p1
        by (auto split: option.splits)
      show ?thesis
        using recursive_bisection_split[OF more deep Some sp[symmetric]] p2[unfolded cs1_def]
        by (simp add: Let_def)
    qed
  qed
qed

lemma recursive_bisection_ids:
  "map snd (recursive_bisection L p n t [] 0) =
   map comp_id [1..<Suc (length (recursive_bisection L p n t [] 0))]"
  by (rule recursive_bisection_invariant) simp_all

subsection \<open>The partition of the trapezoid into two\<close>

lemmas id_eval = comp_id_def sp_id_def zfill2_def str_nat.simps digit_char_def

lemma convex_lib_sel [simp]:
  "is_valid (convex_lib ord) = geom_is_valid" "area (convex_lib ord) = geom_area"
  "bounds (convex_lib ord) = geom_bounds" "box (convex_lib ord) = geom_box"
  "boundary (convex_lib ord) = geom_boundary" "intersection (convex_lib ord) = geom_intersection"
  "split (convex_lib ord) = geom_split ord" "contains (convex_lib ord) = geom_contains"
  by (simp_all add: convex_lib_def)

lemma lib_sel [simp]:
  "is_valid lib = geom_is_valid" "area lib = geom_area" "bounds lib = geom_bounds"
  "contains lib = geom_contains"
  by (simp_all add: lib_def)

lemma ring_distinct: "distinct vs \<Longrightarrow> ring vs = vs"
proof (cases vs)
  case Nil
  then show ?thesis by (simp add: ring_def)
next
  case (Cons v ws)
  assume d: "distinct vs"
  then have r: "remdups_adj vs = vs" by (rule remdups_adj_distinct)
  have "hd vs \<noteq> last vs" if "1 < length vs"
  proof -
    from that Cons have "ws \<noteq> []" by auto
    then have "last vs \<in> set ws" using Cons by simp
    moreover have "hd vs \<notin> set ws" using d Cons by simp
    ultimately show ?thesis by metis
  qed
  then show ?thesis by (auto simp: ring_def r Let_def)
qed

lemma trapezoid_valid: "geom_is_valid trapezoid"
  apply (simp add: trapezoid_def ring_distinct)
  apply (simp add: Let_def ccw_def signed_area_def edges_def)
  apply (simp add: cross_def)
  done

lemma square5_valid: "geom_is_valid square5"
  apply (simp add: square5_def ring_distinct)
  apply (simp add: Let_def ccw_def signed_area_def edges_def)
  apply (simp add: cross_def)
  done

lemma trapezoid_area: "geom_area trapezoid = 2"
  by (simp add: trapezoid_def signed_area_def edges_def)

lemma trapezoid_left_area: "geom_area trapezoid_left = 1.0898999991"
  by (simp add: trapezoid_left_def signed_area_def edges_def)

lemma trapezoid_right_area: "geom_area trapezoid_right = 0.9099000009"
  by (simp add: trapezoid_right_def signed_area_def edges_def)

lemma trapezoid_line: "find_bisecting_line (convex_lib ord) trapezoid 1 = Some trapezoid_cut"
  apply (simp add: find_bisecting_line_def trapezoid_def trapezoid_cut_def)
  apply (simp add: geom_bounds_def min_list_def max_list_def)
  apply (simp add: geom_box_def clip_all_def Let_def)
  apply (simp add: ccw_def signed_area_def edges_def)
  apply (simp add: clip_def cross_def edges_def)
  done

subsection \<open>The partition of the trapezoid for every order of the pieces\<close>

lemma recursive_bisection_retry:
  assumes "\<not> n \<le> int (length cs)"
    and "\<not> \<bar>area L p - t\<bar> < t * 0.1"
    and "find_bisecting_line L p t = Some line"
    and "split_polygon L p line = (Some p, None)"
    and "0 < area L p"
    and "d \<le> 11"
  shows "recursive_bisection L p n t cs d = cs @ [(p, comp_id (length cs + 1))]"
  using assms(6)
proof (induction "11 - d" arbitrary: d)
  case 0
  then have "10 < d" by simp
  then show ?case using recursive_bisection_accept[OF assms(1), of L p t d] by simp
next
  case (Suc k)
  then have d: "\<not> (\<bar>area L p - t\<bar> < t * 0.1 \<or> 10 < d)" using assms(2) by simp
  have "k = 11 - (d + 1)" "d + 1 \<le> 11" using Suc by simp_all
  from Suc.hyps(1)[OF this] have
    r: "recursive_bisection L p n t cs (d + 1) = cs @ [(p, comp_id (length cs + 1))]" .
  show ?case
    by (rule trans[OF recursive_bisection_split_eq[OF assms(1) d assms(3) assms(4) refl refl]])
       (use r in \<open>simp add: assms(5)\<close>)
qed

lemma trapezoid_strip_area: "geom_area trapezoid_strip = 0.0002"
  by (simp add: trapezoid_strip_def signed_area_def edges_def)

lemma trapezoid_pieces:
  "geom_split ord trapezoid trapezoid_cut =
     Some (filter (\<lambda>g. geom_area g > 0)
        (map (\<lambda>i. Polygon ([geom_points trapezoid_left, geom_points trapezoid_strip,
                              geom_points trapezoid_right] ! i)) ord))"
  apply (simp add: trapezoid_def trapezoid_cut_def
      trapezoid_left_def trapezoid_right_def trapezoid_strip_def)
  apply (simp add: geom_bounds_def min_list_def max_list_def)
  apply (simp add: clip_all_def Let_def)
  apply (simp add: ccw_def signed_area_def edges_def)
  apply (simp add: clip_def cross_def edges_def)
  done

lemma trapezoid_strip_bounds: "geom_bounds trapezoid_strip = Some (0.9999, 0, 1.0001, 1.000018)"
  by (simp add: trapezoid_strip_def geom_bounds_def min_list_def max_list_def)

lemma strip_line: "find_bisecting_line (convex_lib ord) trapezoid_strip 1 = Some strip_cut"
  apply (simp add: find_bisecting_line_def trapezoid_strip_def strip_cut_def)
  apply (simp add: geom_bounds_def min_list_def max_list_def)
  apply (simp add: geom_box_def clip_all_def Let_def)
  apply (simp add: ccw_def signed_area_def edges_def)
  apply (simp add: clip_def cross_def edges_def)
  done

lemma strip_pieces:
  "geom_split ord trapezoid_strip strip_cut =
     Some (filter (\<lambda>g. geom_area g > 0)
        (map (\<lambda>i. Polygon ([[(0.9999, 0), (0.9999, 1.000018)], geom_points trapezoid_strip,
                              [(1.0001, 0), (1.0001, 0.999982)]] ! i)) ord))"
  apply (simp add: trapezoid_strip_def strip_cut_def)
  apply (simp add: geom_bounds_def min_list_def max_list_def)
  apply (simp add: clip_all_def Let_def)
  apply (simp add: ccw_def signed_area_def edges_def)
  apply (simp add: clip_def cross_def edges_def)
  done


lemma degenerate_area:
  "geom_area (Polygon [(0.9999, 0), (0.9999, 1.000018)]) = 0"
  "geom_area (Polygon [(1.0001, 0), (1.0001, 0.999982)]) = 0"
  by (simp_all add: signed_area_def edges_def)

lemma piece_points:
  "Polygon (geom_points trapezoid_left) = trapezoid_left"
  "Polygon (geom_points trapezoid_strip) = trapezoid_strip"
  "Polygon (geom_points trapezoid_right) = trapezoid_right"
  by (simp_all add: trapezoid_left_def trapezoid_strip_def trapezoid_right_def)

lemmas piece_areas = trapezoid_left_area trapezoid_strip_area trapezoid_right_area
  degenerate_area

lemma strip_unsplit:
  "ord \<in> set piece_orders \<Longrightarrow>
   split_polygon (convex_lib ord) trapezoid_strip strip_cut = (Some trapezoid_strip, None)"
  unfolding split_polygon_def convex_lib_sel strip_pieces
  by (auto simp: piece_orders_def trapezoid_strip_def signed_area_def edges_def)

lemma trapezoid_first_two:
  "map (\<lambda>ord. split_polygon (convex_lib ord) trapezoid trapezoid_cut) piece_orders =
     [(Some trapezoid_left, Some trapezoid_strip), (Some trapezoid_left, Some trapezoid_right),
      (Some trapezoid_strip, Some trapezoid_left), (Some trapezoid_strip, Some trapezoid_right),
      (Some trapezoid_right, Some trapezoid_left), (Some trapezoid_right, Some trapezoid_strip)]"
  unfolding split_polygon_def convex_lib_sel trapezoid_pieces
  by (simp add: piece_orders_def trapezoid_left_def
      trapezoid_strip_def trapezoid_right_def signed_area_def edges_def)

lemma piece_compartment:
  assumes "ord \<in> set piece_orders"
    and "q = trapezoid_left \<or> q = trapezoid_strip \<or> q = trapezoid_right"
    and "length cs < 2"
  shows "recursive_bisection (convex_lib ord) q 2 1 cs (Suc 0) = cs @ [(q, comp_id (length cs + 1))]"
proof -
  have more: "\<not> 2 \<le> int (length cs)" using assms(3) by simp
  from assms(2) consider "q = trapezoid_left \<or> q = trapezoid_right" | "q = trapezoid_strip"
    by blast
  then show ?thesis
  proof cases
    case 1
    then have "\<bar>area (convex_lib ord) q - 1\<bar> < 1 * 0.1"
      by (auto simp: piece_areas)
    then show ?thesis using recursive_bisection_accept[OF more, of "convex_lib ord" q 1 "Suc 0"]
      by blast
  next
    case 2
    show ?thesis unfolding 2
      by (rule recursive_bisection_retry[OF more _ strip_line strip_unsplit[OF assms(1)]])
         (simp_all add: piece_areas)
  qed
qed

lemma trapezoid_two:
  assumes "ord \<in> set piece_orders"
    and "split_polygon (convex_lib ord) trapezoid trapezoid_cut = (Some a, Some b)"
    and "a = trapezoid_left \<or> a = trapezoid_strip \<or> a = trapezoid_right"
    and "b = trapezoid_left \<or> b = trapezoid_strip \<or> b = trapezoid_right"
  shows "generate_compartments (convex_lib ord) (\<lambda>rows. True) (Some trapezoid) 2 =
           Inr [(''C1'', geom_area a, a), (''C2'', geom_area b, b)]"
proof -
  have pa: "0 < geom_area a" "0 < geom_area b"
    using assms(3,4) by (auto simp: piece_areas)
  have 1: "recursive_bisection (convex_lib ord) a 2 1 [] (Suc 0) = [(a, ''C1'')]"
    using piece_compartment[OF assms(1) assms(3), of "[]"] by (simp add: id_eval)
  have 2: "recursive_bisection (convex_lib ord) b 2 1 [(a, ''C1'')] (Suc 0)
       = [(a, ''C1''), (b, ''C2'')]"
    using piece_compartment[OF assms(1) assms(4), of "[(a, ''C1'')]"] by (simp add: id_eval)
  have "recursive_bisection (convex_lib ord) trapezoid 2 1 [] 0 = [(a, ''C1''), (b, ''C2'')]"
    by (subst recursive_bisection_split[OF _ _ trapezoid_line assms(2)])
       (simp_all add: trapezoid_area pa 1 2 Let_def)
  then show ?thesis
    by (simp add: generate_compartments_def trapezoid_valid trapezoid_area
        create_compartment_geodataframe_def Let_def)
qed

lemma trapezoid_all_orders:
  "map (\<lambda>ord. generate_compartments (convex_lib ord) (\<lambda>rows. True) (Some trapezoid) 2)
      piece_orders =
     [Inr [(''C1'', 1.0898999991, trapezoid_left), (''C2'', 0.0002, trapezoid_strip)],
      Inr [(''C1'', 1.0898999991, trapezoid_left), (''C2'', 0.9099000009, trapezoid_right)],
      Inr [(''C1'', 0.0002, trapezoid_strip), (''C2'', 1.0898999991, trapezoid_left)],
      Inr [(''C1'', 0.0002, trapezoid_strip), (''C2'', 0.9099000009, trapezoid_right)],
      Inr [(''C1'', 0.9099000009, trapezoid_right), (''C2'', 1.0898999991, trapezoid_left)],
      Inr [(''C1'', 0.9099000009, trapezoid_right), (''C2'', 0.0002, trapezoid_strip)]]"
proof -
  note s = trapezoid_first_two[unfolded piece_orders_def, simplified]
  have m: "[0, 1, 2] \<in> set piece_orders" "[0, 2, 1] \<in> set piece_orders"
    "[1, 0, 2] \<in> set piece_orders" "[1, 2, 0] \<in> set piece_orders"
    "[2, 0, 1] \<in> set piece_orders" "[2, 1, 0] \<in> set piece_orders"
    by (simp_all add: piece_orders_def)
  show ?thesis
    unfolding piece_orders_def list.map
    using trapezoid_two[OF m(1)] trapezoid_two[OF m(2)] trapezoid_two[OF m(3)]
      trapezoid_two[OF m(4)] trapezoid_two[OF m(5)] trapezoid_two[OF m(6)] s
    by (simp add: piece_areas)
qed

text \<open>The partition with the order of the library.\<close>

lemma lib_order: "[0, 1, 2] \<in> set piece_orders"
  by (simp add: piece_orders_def)

lemma trapezoid_split:
  "split_polygon lib trapezoid trapezoid_cut = (Some trapezoid_left, Some trapezoid_strip)"
  using trapezoid_first_two by (simp add: piece_orders_def lib_def)


lemma trapezoid_bisection:
  "recursive_bisection lib trapezoid 2 1 [] 0 =
     [(trapezoid_left, ''C1''), (trapezoid_strip, ''C2'')]"
proof -
  have 1: "recursive_bisection lib trapezoid_left 2 1 [] (Suc 0) = [(trapezoid_left, ''C1'')]"
    unfolding lib_def using piece_compartment[OF lib_order, of trapezoid_left "[]"]
    by (simp add: id_eval)
  have 2: "recursive_bisection lib trapezoid_strip 2 1 [(trapezoid_left, ''C1'')] (Suc 0)
       = [(trapezoid_left, ''C1''), (trapezoid_strip, ''C2'')]"
    unfolding lib_def
    using piece_compartment[OF lib_order, of trapezoid_strip "[(trapezoid_left, ''C1'')]"]
    by (simp add: id_eval)
  show ?thesis
    by (subst recursive_bisection_split
          [OF _ _ trapezoid_line[of "[0, 1, 2]", folded lib_def] trapezoid_split])
       (simp_all add: piece_areas trapezoid_area 1 2 Let_def)
qed

lemma trapezoid_partition:
  "generate_compartments lib (\<lambda>rows. True) (Some trapezoid) 2 = Inr trapezoid_rows"
  by (simp add: generate_compartments_def trapezoid_valid trapezoid_area trapezoid_bisection
        piece_areas create_compartment_geodataframe_def trapezoid_rows_def Let_def)

subsection \<open>Invariants of the placement loops\<close>

lemma systematic_inner_Cons:
  "systematic_inner L g cid num_plots minx miny x_step y_step i (j # js) (plots, c) =
    (if num_plots \<le> int (length plots) then (plots, c)
     else systematic_inner L g cid num_plots minx miny x_step y_step i js
       (if contains L g (minx + (real i + 0.5) * x_step, miny + (real j + 0.5) * y_step)
        then (plots @ [new_plot c cid (minx + (real i + 0.5) * x_step)
                         (miny + (real j + 0.5) * y_step)], c + 1)
        else (plots, c)))"
  by (simp add: Let_def new_plot_def cong: if_cong)

lemma systematic_inner_invariant:
  assumes step: "\<And>plots c x y. Q (plots, c) \<Longrightarrow> int (length plots) < num_plots \<Longrightarrow>
      contains L g (x, y) \<Longrightarrow> Q (plots @ [new_plot c cid x y], c + 1)"
    and init: "Q st"
  shows "Q (systematic_inner L g cid num_plots minx miny x_step y_step i js st)"
  using init
proof (induction js arbitrary: st)
  case Nil
  then show ?case by (cases st) simp
next
  case (Cons j js)
  obtain plots c where st: "st = (plots, c)" by (cases st)
  show ?case
  proof (cases "num_plots \<le> int (length plots)")
    case True
    then show ?thesis using Cons.prems st by simp
  next
    case False
    then have lt: "int (length plots) < num_plots" by simp
    let ?x = "minx + (real i + 0.5) * x_step" and ?y = "miny + (real j + 0.5) * y_step"
    let ?st' = "if contains L g (?x, ?y) then (plots @ [new_plot c cid ?x ?y], c + 1) else (plots, c)"
    have "Q ?st'" using step[OF _ lt, of c ?x ?y] Cons.prems st by simp
    from Cons.IH[OF this] show ?thesis
      unfolding st systematic_inner_Cons using False by (simp only: if_False)
  qed
qed

lemma systematic_outer_invariant:
  assumes step: "\<And>plots c x y. Q (plots, c) \<Longrightarrow> int (length plots) < num_plots \<Longrightarrow>
      contains L g (x, y) \<Longrightarrow> Q (plots @ [new_plot c cid x y], c + 1)"
    and init: "Q st"
  shows "Q (systematic_outer L g cid num_plots minx miny x_step y_step gs is st)"
  using init
proof (induction "is" arbitrary: st)
  case Nil
  then show ?case by simp
next
  case (Cons i "is")
  have "Q (systematic_inner L g cid num_plots minx miny x_step y_step i [0..<gs] st)"
    by (rule systematic_inner_invariant[OF step Cons.prems])
  then show ?case using Cons.IH by (simp add: Let_def)
qed

lemma random_loop_done:
  "\<not> (int (length plots) < num_plots \<and> attempts < max_attempts) \<Longrightarrow>
   random_loop L rnd g cid num_plots minx miny maxx maxy max_attempts plots attempts st =
     (plots, attempts, st)"
  by (subst random_loop.simps) (erule if_not_P)

lemma random_loop_hit:
  "int (length plots) < num_plots \<and> attempts < max_attempts \<Longrightarrow>
   contains L g (uniform rnd (draws st) minx maxx, uniform rnd (draws st + 1) miny maxy) \<Longrightarrow>
   random_loop L rnd g cid num_plots minx miny maxx maxy max_attempts plots attempts st =
     random_loop L rnd g cid num_plots minx miny maxx maxy max_attempts
       (plots @ [new_plot (plot_counter st) cid (uniform rnd (draws st) minx maxx)
                   (uniform rnd (draws st + 1) miny maxy)])
       (attempts + 1) \<lparr>plot_counter = plot_counter st + 1, draws = draws st + 2\<rparr>"
  by (subst random_loop.simps) (simp add: Let_def new_plot_def)

lemma random_loop_miss:
  "int (length plots) < num_plots \<and> attempts < max_attempts \<Longrightarrow>
   \<not> contains L g (uniform rnd (draws st) minx maxx, uniform rnd (draws st + 1) miny maxy) \<Longrightarrow>
   random_loop L rnd g cid num_plots minx miny maxx maxy max_attempts plots attempts st =
     random_loop L rnd g cid num_plots minx miny maxx maxy max_attempts
       plots (attempts + 1) (st\<lparr>draws := draws st + 2\<rparr>)"
  by (subst random_loop.simps) (simp add: Let_def)

lemma random_loop_invariant:
  assumes step: "\<And>plots c x y. Q (plots, c) \<Longrightarrow> int (length plots) < num_plots \<Longrightarrow>
      contains L g (x, y) \<Longrightarrow> Q (plots @ [new_plot c cid x y], c + 1)"
    and init: "Q (plots, plot_counter st)"
    and res: "random_loop L rnd g cid num_plots minx miny maxx maxy max_attempts plots attempts st
               = (plots', attempts', st')"
  shows "Q (plots', plot_counter st')"
  using init res step
proof (induction L rnd g cid num_plots minx miny maxx maxy max_attempts plots attempts st
    rule: random_loop.induct)
  case (1 L rnd g cid num_plots minx miny maxx maxy max_attempts plots attempts st)
  note init = "1.prems"(1) and res = "1.prems"(2) and step = "1.prems"(3)
  let ?x = "uniform rnd (draws st) minx maxx" and ?y = "uniform rnd (draws st + 1) miny maxy"
  show ?case
  proof (cases "int (length plots) < num_plots \<and> attempts < max_attempts")
    case False
    then show ?thesis using init res[unfolded random_loop_done[OF False]] by simp
  next
    case True
    show ?thesis
    proof (cases "contains L g (?x, ?y)")
      case c: True
      have q: "Q (plots @ [new_plot (plot_counter st) cid ?x ?y], plot_counter st + 1)"
        using step[OF init _ c] True by simp
      note r = res[unfolded random_loop_hit[OF True c]]
      show ?thesis
        by (rule "1.IH"(1)[OF True refl refl refl c _ _ step, folded new_plot_def])
           (use q r in simp_all)
    next
      case c: False
      note r = res[unfolded random_loop_miss[OF True c]]
      show ?thesis
        by (rule "1.IH"(2)[OF True refl refl refl c _ _ step]) (use init r in simp_all)
    qed
  qed
qed

lemma generate_plots_for_compartment_invariant:
  assumes step: "\<And>plots c x y. Q (plots, c) \<Longrightarrow> int (length plots) < num_plots \<Longrightarrow>
      contains L g (x, y) \<Longrightarrow> Q (plots @ [new_plot c cid x y], c + 1)"
    and init: "Q ([], plot_counter st)"
    and res: "generate_plots_for_compartment L rnd g cid num_plots method st = Inr (plots, st')"
  shows "Q (plots, plot_counter st')"
proof (cases "method = ''systematic''")
  case True
  with res obtain minx miny maxx maxy c where
    b: "bounds L g = Some (minx, miny, maxx, maxy)" and
    r: "systematic_outer L g cid num_plots minx miny
          ((maxx - minx) / real (isqrt (nat num_plots) + 1))
          ((maxy - miny) / real (isqrt (nat num_plots) + 1))
          (isqrt (nat num_plots) + 1) [0..<isqrt (nat num_plots) + 1] ([], plot_counter st)
        = (plots, c)" and st': "st' = st\<lparr>plot_counter := c\<rparr>"
    by (auto simp: generate_plots_for_compartment_def generate_systematic_plots_def Let_def
        split: option.splits if_splits sum.splits)
  have "Q (systematic_outer L g cid num_plots minx miny
          ((maxx - minx) / real (isqrt (nat num_plots) + 1))
          ((maxy - miny) / real (isqrt (nat num_plots) + 1))
          (isqrt (nat num_plots) + 1) [0..<isqrt (nat num_plots) + 1] ([], plot_counter st))"
    by (rule systematic_outer_invariant[OF step init])
  then show ?thesis unfolding r st' by simp
next
  case False
  with res obtain minx miny maxx maxy attempts where
    r: "random_loop L rnd g cid num_plots minx miny maxx maxy (num_plots * 10) [] 0 st
        = (plots, attempts, st')"
    by (auto simp: generate_plots_for_compartment_def generate_random_plots_def Let_def
        split: option.splits prod.splits)
  show ?thesis by (rule random_loop_invariant[OF step init r])
qed

lemma sample_rows_invariant:
  assumes step: "\<And>all c x y cid g. R (all, c) \<Longrightarrow> (cid, g) \<in> set (resolve_ids idx rows) \<Longrightarrow>
      contains L g (x, y) \<Longrightarrow> R (all @ [new_plot c cid x y], c + 1)"
    and init: "R (acc, plot_counter st)"
    and res: "sample_rows L rnd si min_plots method idx rows (acc, st) = Inr (out, st')"
  shows "R (out, plot_counter st')"
  using step init res
proof (induction rows arbitrary: idx acc st)
  case Nil
  then show ?case by simp
next
  case (Cons row rows)
  obtain cid_opt g where row: "row = (cid_opt, g)" by (cases row)
  define cid where "cid = (case cid_opt of Some v \<Rightarrow> v | None \<Rightarrow> Some (comp_id (idx + 1)))"
  define n where "n = max min_plots (py_round (area L g * si / 10000))"
  from Cons.prems(3) obtain plots st1 where
    g: "generate_plots_for_compartment L rnd g cid n method st = Inr (plots, st1)" and
    rest: "sample_rows L rnd si min_plots method (idx + 1) rows (acc @ plots, st1) = Inr (out, st')"
    by (auto simp: row cid_def n_def Let_def split: sum.splits)
  have mem: "(cid, g) \<in> set (resolve_ids idx (row # rows))"
    by (simp add: row cid_def)
  have "R (acc @ plots, plot_counter st1)"
  proof (rule generate_plots_for_compartment_invariant[where Q = "\<lambda>(ps, c). R (acc @ ps, c)"
        and plots = plots and st' = st1, OF _ _ g, simplified])
    show "R (acc, plot_counter st)" by (rule Cons.prems(2))
  next
    fix ps c x y
    assume "R (acc @ ps, c)" "contains L g (x, y)"
    then show "R (acc @ ps @ [new_plot c cid x y], Suc c)"
      using Cons.prems(1)[OF _ mem, of "acc @ ps" c x y] by simp
  qed
  moreover have "\<And>all c x y cid g. R (all, c) \<Longrightarrow> (cid, g) \<in> set (resolve_ids (idx + 1) rows) \<Longrightarrow>
      contains L g (x, y) \<Longrightarrow> R (all @ [new_plot c cid x y], c + 1)"
  proof -
    fix all c x y cid' g'
    assume a: "R (all, c)" "(cid', g') \<in> set (resolve_ids (idx + 1) rows)" "contains L g' (x, y)"
    have "(cid', g') \<in> set (resolve_ids idx (row # rows))" using a(2) by (simp add: row)
    from Cons.prems(1)[OF a(1) this a(3)] show "R (all @ [new_plot c cid' x y], c + 1)" .
  qed
  ultimately show ?case using Cons.IH[OF _ _ rest] by blast
qed

lemma str_val_zeros: "str_val (replicate m (CHR ''0'') @ s) = str_val s"
proof -
  have "foldl (\<lambda>a c. 10 * a + digit_val c) 0 (replicate m (CHR ''0'')) = 0"
    by (induction m) (simp_all add: digit_val_def)
  then show ?thesis by (simp add: str_val_def)
qed

lemma sp_id_inj: "inj sp_id"
proof (rule injI)
  fix a b assume "sp_id a = sp_id b"
  then have "str_val (zfill2 (str_nat a)) = str_val (zfill2 (str_nat b))"
    by (simp add: sp_id_def)
  then show "a = b" by (simp add: zfill2_def str_val_zeros str_nat_val)
qed

lemma sp_id_length: "5 \<le> length (sp_id k)"
  by (simp add: sp_id_def zfill2_def)

lemma numbered_step: "numbered (all, c) \<Longrightarrow> numbered (all @ [new_plot c cid x y], c + 1)"
  by (simp add: numbered_def new_plot_def)

subsection \<open>What the systematic placement returns\<close>

lemma systematic_inner_points:
  "int (length plots) \<le> n \<Longrightarrow>
   map geometry (fst (systematic_inner L g cid n minx miny x_step y_step i js (plots, c))) =
     take (nat n) (map geometry plots @ filter (contains L g)
       (map (\<lambda>j. (minx + (real i + 0.5) * x_step, miny + (real j + 0.5) * y_step)) js))"
proof (induction js arbitrary: plots c)
  case Nil
  then show ?case by simp
next
  case (Cons j js)
  show ?case
  proof (cases "n \<le> int (length plots)")
    case True
    with Cons.prems have "nat n = length plots" by simp
    then show ?thesis using True by (simp add: systematic_inner_Cons)
  next
    case False
    let ?pt = "(minx + (real i + 0.5) * x_step, miny + (real j + 0.5) * y_step)"
    show ?thesis
    proof (cases "contains L g ?pt")
      case c: True
      have "int (length (plots @ [new_plot c cid (fst ?pt) (snd ?pt)])) \<le> n"
        using False by simp
      from Cons.IH[OF this] show ?thesis
        using False c unfolding systematic_inner_Cons
        by (simp add: new_plot_def)
    next
      case c: False
      from Cons.IH[OF Cons.prems] show ?thesis
        using False c unfolding systematic_inner_Cons by simp
    qed
  qed
qed

lemma systematic_inner_length:
  "int (length plots) \<le> n \<Longrightarrow>
   int (length (fst (systematic_inner L g cid n minx miny x_step y_step i js (plots, c)))) \<le> n"
  using systematic_inner_invariant[where Q = "\<lambda>(ps, c). int (length ps) \<le> n" and st = "(plots, c)"
      and num_plots = n]
  by (auto simp: case_prod_beta)

lemma take_append_full: "n \<le> length (take n xs) \<Longrightarrow> take n (xs @ ys) = take n xs"
  by simp

lemma take_short: "length (take n xs) < n \<Longrightarrow> take n xs = xs"
  by simp

lemma systematic_outer_points:
  "int (length (fst st)) \<le> n \<Longrightarrow>
   map geometry (fst (systematic_outer L g cid n minx miny x_step y_step gs is st)) =
     take (nat n) (map geometry (fst st) @ filter (contains L g)
       (concat (map (\<lambda>i. map (\<lambda>j. (minx + (real i + 0.5) * x_step, miny + (real j + 0.5) * y_step))
                          [0..<gs]) is)))"
proof (induction "is" arbitrary: st)
  case Nil
  then show ?case by simp
next
  case (Cons i "is")
  obtain plots c where st: "st = (plots, c)" by (cases st)
  let ?row = "filter (contains L g)
       (map (\<lambda>j. (minx + (real i + 0.5) * x_step, miny + (real j + 0.5) * y_step)) [0..<gs])"
  let ?rest = "filter (contains L g)
       (concat (map (\<lambda>i. map (\<lambda>j. (minx + (real i + 0.5) * x_step, miny + (real j + 0.5) * y_step))
                          [0..<gs]) is))"
  define st' where "st' = systematic_inner L g cid n minx miny x_step y_step i [0..<gs] st"
  have len: "int (length plots) \<le> n" using Cons.prems st by simp
  have g': "map geometry (fst st') = take (nat n) (map geometry plots @ ?row)"
    unfolding st'_def st by (rule systematic_inner_points[OF len])
  have l': "int (length (fst st')) \<le> n"
    unfolding st'_def st by (rule systematic_inner_length[OF len])
  have eq: "systematic_outer L g cid n minx miny x_step y_step gs (i # is) st =
      (if n \<le> int (length (fst st')) then st'
       else systematic_outer L g cid n minx miny x_step y_step gs is st')"
    by (simp only: systematic_outer.simps st'_def Let_def)
  have cc: "filter (contains L g)
       (concat (map (\<lambda>i. map (\<lambda>j. (minx + (real i + 0.5) * x_step, miny + (real j + 0.5) * y_step))
                          [0..<gs]) (i # is))) = ?row @ ?rest"
    by (simp only: list.map concat.simps filter_append)
  have goal: "map geometry (fst st) @ ?row @ ?rest = (map geometry plots @ ?row) @ ?rest"
    by (simp only: st fst_conv append_assoc)
  show ?case
  proof (cases "n \<le> int (length (fst st'))")
    case True
    then have "nat n \<le> length (take (nat n) (map geometry plots @ ?row))"
      using g'[symmetric] by simp
    then have "take (nat n) ((map geometry plots @ ?row) @ ?rest) = map geometry (fst st')"
      unfolding g' by (rule take_append_full)
    then show ?thesis unfolding eq cc goal using True by (simp only: if_True)
  next
    case False
    then have "length (take (nat n) (map geometry plots @ ?row)) < nat n"
      using g'[symmetric] by simp
    then have "take (nat n) (map geometry plots @ ?row) = map geometry plots @ ?row"
      by (rule take_short)
    with g' have "map geometry (fst st') = map geometry plots @ ?row" by simp
    with Cons.IH[OF l'] show ?thesis unfolding eq cc goal using False by (simp only: if_False)
  qed
qed

lemma generate_systematic_plots_points:
  assumes "generate_systematic_plots L g cid n c = Inr (plots, c')"
  shows "\<exists>minx miny maxx maxy. bounds L g = Some (minx, miny, maxx, maxy) \<and>
          map geometry plots = take (nat n) (filter (contains L g)
            (grid_points minx miny ((maxx - minx) / real (isqrt (nat n) + 1))
               ((maxy - miny) / real (isqrt (nat n) + 1)) (isqrt (nat n) + 1)))"
proof -
  from assms obtain minx miny maxx maxy where
    b: "bounds L g = Some (minx, miny, maxx, maxy)" and n: "0 \<le> n" and
    r: "systematic_outer L g cid n minx miny
          ((maxx - minx) / real (isqrt (nat n) + 1))
          ((maxy - miny) / real (isqrt (nat n) + 1))
          (isqrt (nat n) + 1) [0..<isqrt (nat n) + 1] ([], c) = (plots, c')"
    by (auto simp: generate_systematic_plots_def Let_def split: option.splits if_splits)
  have "int (length (fst (([] :: plot list), c))) \<le> n" using n by simp
  from systematic_outer_points[OF this, of L g cid minx miny
      "(maxx - minx) / real (isqrt (nat n) + 1)" "(maxy - miny) / real (isqrt (nat n) + 1)"
      "isqrt (nat n) + 1" "[0..<isqrt (nat n) + 1]", unfolded r]
  have "map geometry plots = take (nat n) (filter (contains L g)
            (grid_points minx miny ((maxx - minx) / real (isqrt (nat n) + 1))
               ((maxy - miny) / real (isqrt (nat n) + 1)) (isqrt (nat n) + 1)))"
    by (simp only: fst_conv list.map append_Nil grid_points_def)
  with b show ?thesis by blast
qed

lemma generate_plots_for_compartment_length:
  assumes "generate_plots_for_compartment L rnd g cid n method st = Inr (plots, st')"
  shows "int (length plots) \<le> max 0 n"
  using generate_plots_for_compartment_invariant[where Q = "\<lambda>(ps, c). int (length ps) \<le> max 0 n",
      OF _ _ assms]
  by auto

subsection \<open>Termination and bounds\<close>

lemma recursive_bisection_total: "recursive_bisection_dom (L, p, n, t, cs, d)"
proof (induction "11 - d" arbitrary: L p n t cs d rule: less_induct)
  case less
  show ?case
    by (rule recursive_bisection.domintros; rule less; simp)
qed

lemma random_loop_total:
  "random_loop_dom (L, rnd, g, cid, n, minx, miny, maxx, maxy, max_attempts, plots, attempts, st)"
proof (induction "nat (max_attempts - attempts)" arbitrary: plots attempts st rule: less_induct)
  case less
  show ?case
    by (rule random_loop.domintros; rule less; simp)
qed

lemma recursive_bisection_length:
  "length (recursive_bisection L p n t cs d) \<le> length cs + 2 ^ (11 - d)"
proof (induction L p n t cs d rule: recursive_bisection.induct)
  case (1 L polygon n t cs depth)
  show ?case
  proof (cases "n \<le> int (length cs)")
    case True
    then show ?thesis by (simp add: recursive_bisection_stop)
  next
    case more: False
    show ?thesis
    proof (cases "\<bar>area L polygon - t\<bar> < t * 0.1 \<or> 10 < depth \<or> find_bisecting_line L polygon t = None")
      case True
      then show ?thesis using recursive_bisection_accept[OF more True] by simp
    next
      case False
      then have deep: "\<not> (\<bar>area L polygon - t\<bar> < t * (1 / 10) \<or> 10 < depth)" by simp
      from False obtain line where Some: "find_bisecting_line L polygon t = Some line" by auto
      obtain left right where sp: "(left, right) = split_polygon L polygon line"
        by (cases "split_polygon L polygon line") auto
      define cs1 where "cs1 = (case left of None \<Rightarrow> cs
          | Some l \<Rightarrow> if 0 < area L l then recursive_bisection L l n t cs (depth + 1) else cs)"
      define cs2 where "cs2 = (case right of None \<Rightarrow> cs1
          | Some r \<Rightarrow> if 0 < area L r then recursive_bisection L r n t cs1 (depth + 1) else cs1)"
      have p1: "length cs1 \<le> length cs + 2 ^ (11 - (depth + 1))"
        unfolding cs1_def using "1.IH"(1)[OF more deep Some sp]
        by (auto split: option.splits)
      have p2: "length cs2 \<le> length cs1 + 2 ^ (11 - (depth + 1))"
        unfolding cs2_def using "1.IH"(2)[OF more deep Some sp cs1_def]
        by (auto split: option.splits)
      from deep have "depth \<le> 10" by simp
      then have "11 - depth = Suc (11 - (depth + 1))" by simp
      then have "(2::nat) ^ (11 - depth) = 2 ^ (11 - (depth + 1)) + 2 ^ (11 - (depth + 1))"
        by simp
      with p1 p2 have "length cs2 \<le> length cs + 2 ^ (11 - depth)" by linarith
      moreover have "recursive_bisection L polygon n t cs depth = cs2"
        by (rule recursive_bisection_split_eq[OF more deep Some sp[symmetric] cs1_def cs2_def])
      ultimately show ?thesis by simp
    qed
  qed
qed

lemma random_loop_attempts:
  assumes "random_loop L rnd g cid n minx miny maxx maxy max_attempts plots attempts st
             = (plots', attempts', st')"
  shows "attempts \<le> attempts' \<and> attempts' \<le> max attempts max_attempts
       \<and> int (draws st') = int (draws st) + 2 * (attempts' - attempts)
       \<and> (n \<le> int (length plots') \<or> max_attempts \<le> attempts')"
  using assms
proof (induction L rnd g cid n minx miny maxx maxy max_attempts plots attempts st
    rule: random_loop.induct)
  case (1 L rnd g cid num_plots minx miny maxx maxy max_attempts plots attempts st)
  let ?x = "uniform rnd (draws st) minx maxx" and ?y = "uniform rnd (draws st + 1) miny maxy"
  note res = "1.prems"
  show ?case
  proof (cases "int (length plots) < num_plots \<and> attempts < max_attempts")
    case False
    then show ?thesis using res[unfolded random_loop_done[OF False]] by auto
  next
    case True
    show ?thesis
    proof (cases "contains L g (?x, ?y)")
      case c: True
      note r = res[unfolded random_loop_hit[OF True c]]
      from "1.IH"(1)[OF True refl refl refl c r[unfolded new_plot_def]] True
      show ?thesis by auto
    next
      case c: False
      note r = res[unfolded random_loop_miss[OF True c]]
      from "1.IH"(2)[OF True refl refl refl c r] True
      show ?thesis by auto
    qed
  qed
qed

subsection \<open>Two sampling requests\<close>

lemma trapezoid_left_bounds: "geom_bounds trapezoid_left = Some (0, 0, 0.9999, 1.18)"
  by (simp add: trapezoid_left_def geom_bounds_def min_list_def max_list_def)

lemma trapezoid_right_bounds: "geom_bounds trapezoid_right = Some (1.0001, 0, 2, 0.999982)"
  by (simp add: trapezoid_right_def geom_bounds_def min_list_def max_list_def)

lemma trapezoid_left_centre: "geom_contains trapezoid_left (0.49995, 0.59)"
  apply (simp add: trapezoid_left_def ring_distinct)
  apply (simp add: ccw_def signed_area_def edges_def)
  apply (simp add: cross_def)
  done

lemma trapezoid_right_centre: "geom_contains trapezoid_right (1.50005, 0.499991)"
  apply (simp add: trapezoid_right_def ring_distinct)
  apply (simp add: ccw_def signed_area_def edges_def)
  apply (simp add: cross_def)
  done

lemma random_left:
  "generate_plots_for_compartment lib half_rnd trapezoid_left (Some ''C1'') 2 ''random''
     \<lparr>plot_counter = 0, draws = 0\<rparr> =
   Inr ([new_plot 0 (Some ''C1'') 0.49995 0.59, new_plot 1 (Some ''C1'') 0.49995 0.59],
        \<lparr>plot_counter = 2, draws = 4\<rparr>)"
proof -
  note u = uniform_def half_rnd_def
  note c = trapezoid_left_centre[simplified]
  have "random_loop lib half_rnd trapezoid_left (Some ''C1'') 2 0 0 0.9999 1.18 (2 * 10) [] 0
          \<lparr>plot_counter = 0, draws = 0\<rparr> =
        ([new_plot 0 (Some ''C1'') 0.49995 0.59, new_plot 1 (Some ''C1'') 0.49995 0.59], 2,
          \<lparr>plot_counter = 2, draws = 4\<rparr>)"
    apply (subst random_loop_hit; simp add: u c)
    apply (subst random_loop_hit; simp add: u c)
    apply (subst random_loop_done; simp)
    done
  then show ?thesis
    by (simp add: generate_plots_for_compartment_def generate_random_plots_def
        trapezoid_left_bounds)
qed


lemma random_right:
  "generate_plots_for_compartment lib half_rnd trapezoid_right (Some ''C2'') 2 ''random''
     \<lparr>plot_counter = 2, draws = 4\<rparr> =
   Inr ([new_plot 2 (Some ''C2'') 1.50005 0.499991, new_plot 3 (Some ''C2'') 1.50005 0.499991],
        \<lparr>plot_counter = 4, draws = 8\<rparr>)"
proof -
  note u = uniform_def half_rnd_def
  note c = trapezoid_right_centre[simplified]
  have "random_loop lib half_rnd trapezoid_right (Some ''C2'') 2 1.0001 0 2 0.999982 (2 * 10) [] 0
          \<lparr>plot_counter = 2, draws = 4\<rparr> =
        ([new_plot 2 (Some ''C2'') 1.50005 0.499991, new_plot 3 (Some ''C2'') 1.50005 0.499991], 2,
          \<lparr>plot_counter = 4, draws = 8\<rparr>)"
    apply (subst random_loop_hit; simp add: u c)
    apply (subst random_loop_hit; simp add: u c)
    apply (subst random_loop_done; simp)
    done
  then show ?thesis
    by (simp add: generate_plots_for_compartment_def generate_random_plots_def
        trapezoid_right_bounds)
qed

lemma planned_two:
  "max 2 (py_round (geom_area trapezoid_left * 0.02 / 10000)) = 2"
  "max 2 (py_round (geom_area trapezoid_right * 0.02 / 10000)) = 2"
  by (simp_all add: trapezoid_left_area trapezoid_right_area py_round_def)

lemma random_request:
  "generate_sample_plots lib half_rnd (\<lambda>plots. True) (Some two_rows) 0.02 2 ''random'' 0 =
     Inr four_plots"
  by (simp add: generate_sample_plots_def two_rows_def four_plots_def Let_def
      planned_two[simplified] id_eval random_left[simplified] random_right[simplified])


lemma isqrt_2: "isqrt 2 = 1"
  by (simp add: isqrt_def isqrt_from.simps)

lemma upt_0_2: "[0..<2] = [0, 1]"
  by (simp add: upt_rec)

lemma trapezoid_left_grid:
  "geom_contains trapezoid_left (0.249975, 0.295)" "geom_contains trapezoid_left (0.249975, 0.885)"
  apply (simp_all add: trapezoid_left_def ring_distinct)
  apply (simp_all add: ccw_def signed_area_def edges_def)
  apply (simp_all add: cross_def)
  done

lemma trapezoid_right_grid:
  "geom_contains trapezoid_right (1.250075, 0.2499955)"
  "geom_contains trapezoid_right (1.250075, 0.7499865)"
  apply (simp_all add: trapezoid_right_def ring_distinct)
  apply (simp_all add: ccw_def signed_area_def edges_def)
  apply (simp_all add: cross_def)
  done

lemma systematic_left:
  "generate_plots_for_compartment lib rnd trapezoid_left (Some ''C1'') 2 ''systematic''
     \<lparr>plot_counter = 0, draws = 0\<rparr> =
   Inr ([new_plot 0 (Some ''C1'') 0.249975 0.295, new_plot 1 (Some ''C1'') 0.249975 0.885],
        \<lparr>plot_counter = 2, draws = 0\<rparr>)"
  by (simp add: generate_plots_for_compartment_def generate_systematic_plots_def
      trapezoid_left_bounds isqrt_2 upt_0_2 Let_def trapezoid_left_grid[simplified] new_plot_def)

lemma systematic_right:
  "generate_plots_for_compartment lib rnd trapezoid_right (Some ''C2'') 2 ''systematic''
     \<lparr>plot_counter = 2, draws = 0\<rparr> =
   Inr ([new_plot 2 (Some ''C2'') 1.250075 0.2499955, new_plot 3 (Some ''C2'') 1.250075 0.7499865],
        \<lparr>plot_counter = 4, draws = 0\<rparr>)"
  by (simp add: generate_plots_for_compartment_def generate_systematic_plots_def
      trapezoid_right_bounds isqrt_2 upt_0_2 Let_def trapezoid_right_grid[simplified] new_plot_def)

lemma systematic_request:
  "generate_sample_plots lib rnd (\<lambda>plots. True) (Some two_rows) 0.02 2 ''systematic'' 0 =
     Inr grid_plots"
  by (simp add: generate_sample_plots_def two_rows_def grid_plots_def Let_def
      planned_two[simplified] id_eval systematic_left[simplified] systematic_right[simplified])

subsection \<open>The band\<close>

lemma band_area: "geom_area band = 6"
  by (simp add: band_def signed_area_def edges_def)

lemma band_bounds: "geom_bounds band = Some (0, 0, 6, 6)"
  by (simp add: band_def geom_bounds_def min_list_def max_list_def)

lemma band_ccw: "ccw [(0, 0), (1, 0), (6, 6), (5, 6)] = [(0, 0), (1, 0), (6, 6), (5, 6)]"
  by (simp add: ccw_def signed_area_def edges_def)

lemma band_grid:
  "geom_contains band (1, 1)" "\<not> geom_contains band (1, 3)" "\<not> geom_contains band (1, 5)"
  "\<not> geom_contains band (3, 1)" "geom_contains band (3, 3)" "\<not> geom_contains band (3, 5)"
  "\<not> geom_contains band (5, 1)" "\<not> geom_contains band (5, 3)" "geom_contains band (5, 5)"
  by (simp_all add: band_def ring_distinct band_ccw edges_def cross_def)

lemma isqrt_5: "isqrt 5 = 2"
  by (simp add: isqrt_def isqrt_from.simps)

lemma upt_0_3: "[0..<3] = [0, 1, 2]"
  by (simp add: upt_rec)

lemma band_planned: "plan (geom_area band) 0.02 5 = 5"
  by (simp add: band_area plan_def py_round_def)

lemma systematic_band:
  "generate_plots_for_compartment lib rnd band (Some ''C1'') 5 ''systematic''
     \<lparr>plot_counter = 0, draws = 0\<rparr> = Inr (band_plots, \<lparr>plot_counter = 3, draws = 0\<rparr>)"
  by (simp add: generate_plots_for_compartment_def generate_systematic_plots_def band_plots_def
      band_bounds isqrt_5 upt_0_3 Let_def band_grid new_plot_def id_eval)

lemma band_request:
  "generate_sample_plots lib half_rnd (\<lambda>plots. True) (Some band_file) 0.02 5
     ''systematic'' 0 = Inr band_plots"
proof -
  have "band_plots \<noteq> []" by (simp add: band_plots_def)
  with band_planned systematic_band[of half_rnd] show ?thesis
    by (simp add: generate_sample_plots_def band_file_def Let_def plan_def)
qed

lemma random_left_loop:
  "random_loop lib half_rnd trapezoid_left (Some ''C1'') 2 0 0 0.9999 1.18 (2 * 10) [] 0
      \<lparr>plot_counter = 0, draws = 0\<rparr> =
    ([new_plot 0 (Some ''C1'') 0.49995 0.59, new_plot 1 (Some ''C1'') 0.49995 0.59], 2,
      \<lparr>plot_counter = 2, draws = 4\<rparr>)"
  apply (subst random_loop_hit; simp add: uniform_def half_rnd_def trapezoid_left_centre[simplified])
  apply (subst random_loop_hit; simp add: uniform_def half_rnd_def trapezoid_left_centre[simplified])
  apply (subst random_loop_done; simp)
  done

subsection \<open>Areas of the compartments\<close>



lemma bowtie_invalid: "\<not> geom_is_valid bowtie"
  apply (simp add: bowtie_def ring_distinct)
  apply (simp add: Let_def ccw_def signed_area_def edges_def)
  done


subsection \<open>Shortfalls of the random placement\<close>

lemma random_loop_all_miss:
  assumes "\<And>k. even k \<Longrightarrow>
      \<not> contains L g (uniform rnd k minx maxx, uniform rnd (k + 1) miny maxy)"
    and "even (draws st)"
  shows "fst (random_loop L rnd g cid n minx miny maxx maxy m plots attempts st) = plots"
  using assms
proof (induction L rnd g cid n minx miny maxx maxy m plots attempts st
    rule: random_loop.induct)
  case (1 L rnd g cid num_plots minx miny maxx maxy max_attempts plots attempts st)
  note miss = "1.prems"(1) and ev = "1.prems"(2)
  show ?case
  proof (cases "int (length plots) < num_plots \<and> attempts < max_attempts")
    case False
    then show ?thesis by (simp add: random_loop_done)
  next
    case True
    have c: "\<not> contains L g (uniform rnd (draws st) minx maxx, uniform rnd (draws st + 1) miny maxy)"
      by (rule miss[OF ev])
    have "even (draws (st\<lparr>draws := draws st + 2\<rparr>))" using ev by simp
    from "1.IH"(2)[OF True refl refl refl c miss this]
    show ?thesis unfolding random_loop_miss[OF True c] .
  qed
qed

lemma band_dodged:
  "even k \<Longrightarrow> \<not> contains lib band (uniform dodging_rnd k 0 6, uniform dodging_rnd (k + 1) 0 6)"
  by (simp add: uniform_def dodging_rnd_def band_def ring_distinct band_ccw edges_def cross_def)

lemma random_band:
  "\<exists>st'. generate_plots_for_compartment lib dodging_rnd band (Some ''C1'') 5 ''random''
     \<lparr>plot_counter = 0, draws = 0\<rparr> = Inr ([], st')"
proof -
  obtain ps a st' where r: "random_loop lib dodging_rnd band (Some ''C1'') 5 0 0 6 6 (5 * 10) [] 0
     \<lparr>plot_counter = 0, draws = 0\<rparr> = (ps, a, st')"
    by (rule prod_cases3)
  have "fst (random_loop lib dodging_rnd band (Some ''C1'') 5 0 0 6 6 (5 * 10) [] 0
     \<lparr>plot_counter = 0, draws = 0\<rparr>) = []"
    by (rule random_loop_all_miss) (use band_dodged in simp_all)
  with r have "ps = []" by simp
  with r show ?thesis
    by (simp add: generate_plots_for_compartment_def generate_random_plots_def band_bounds)
qed

text \<open>
  A request whose fifty attempts all miss has no plot to write and fails where the table
  of the plots is built.
\<close>

lemma band_random_request:
  "generate_sample_plots lib dodging_rnd (\<lambda>plots. True) (Some band_file) 0.02 5
     ''random'' 0 = Inl (ValueError UnknownColumn)"
proof -
  from random_band obtain st' where
    "generate_plots_for_compartment lib dodging_rnd band (Some ''C1'') 5 ''random''
     \<lparr>plot_counter = 0, draws = 0\<rparr> = Inr ([], st')" ..
  with band_planned show ?thesis
    by (simp add: generate_sample_plots_def band_file_def Let_def plan_def)
qed

lemma generate_random_plots_exit:
  assumes "generate_plots_for_compartment L rnd g cid n method st = Inr (plots, st')"
    and "method \<noteq> ''systematic''"
  shows "\<exists>attempts. n \<le> int (length plots) \<or> n * 10 \<le> attempts \<and>
           int (draws st') = int (draws st) + 2 * attempts"
proof -
  from assms obtain minx miny maxx maxy attempts where
    r: "random_loop L rnd g cid n minx miny maxx maxy (n * 10) [] 0 st = (plots, attempts, st')"
    by (auto simp: generate_plots_for_compartment_def generate_random_plots_def Let_def
        split: option.splits prod.splits)
  from random_loop_attempts[OF r] show ?thesis by auto
qed

subsection \<open>Bounds on the number of plots\<close>

text \<open>
  The number of plots asked for is the planned count, which is at least the minimum; the
  number of plots generated is never more than the planned count. The random method
  generates the planned count unless its \<open>10 * count\<close> attempts (two draws each) are
  used up; it then returns the plots it has.
\<close>

lemma plot_count_bounded:
  assumes "generate_plots_for_compartment L rnd g cid (plan (area L g) intensity minimum)
             method st = Inr (plots, st')"
  shows "minimum \<le> plan (area L g) intensity minimum
       \<and> int (length plots) \<le> max 0 (plan (area L g) intensity minimum)
       \<and> (method \<noteq> ''systematic'' \<longrightarrow>
            plan (area L g) intensity minimum \<le> int (length plots)
            \<or> int (draws st') \<ge> int (draws st) + 20 * plan (area L g) intensity minimum)"
proof (intro conjI impI)
  show "minimum \<le> plan (area L g) intensity minimum" by (simp add: plan_def)
next
  show "int (length plots) \<le> max 0 (plan (area L g) intensity minimum)"
    by (rule generate_plots_for_compartment_length[OF assms])
next
  assume "method \<noteq> ''systematic''"
  from generate_random_plots_exit[OF assms this]
  show "plan (area L g) intensity minimum \<le> int (length plots)
            \<or> int (draws st') \<ge> int (draws st) + 20 * plan (area L g) intensity minimum"
    by auto
qed

section \<open>Claims\<close>

text \<open>
  C1. For any successful partition producing \<open>k\<close> compartments, the identifiers are, in the
  order of creation, \<open>C1, \<dots>, Ck\<close>: the \<open>i\<close>-th compartment created carries \<open>Ci\<close>, no
  identifier occurs twice, and the set of identifiers is exactly \<open>{C1, \<dots>, Ck}\<close>. This
  holds for every geometry library and every file writer.
\<close>

theorem sequential_numbering:
  assumes "generate_compartments L to_file b n = Inr rows"
  shows "map fst rows = map comp_id [1..<Suc (length rows)] \<and> distinct (map fst rows)
         \<and> set (map fst rows) = comp_id ` {1..length rows}"
proof -
  from assms obtain g where rows:
    "rows = create_compartment_geodataframe L
       (recursive_bisection L g n (area L g / real_of_int n) [] 0)"
    by (auto simp: generate_compartments_def Let_def split: option.splits if_splits)
  have fst_snd: "map fst (create_compartment_geodataframe L cs) = map snd cs" for cs
    by (induction cs) (auto simp: create_compartment_geodataframe_def)
  have len: "length (create_compartment_geodataframe L cs) = length cs" for cs
    by (simp add: create_compartment_geodataframe_def)
  have ids: "map fst rows = map comp_id [1..<Suc (length rows)]"
    unfolding rows fst_snd len by (rule recursive_bisection_ids)
  have "distinct (map comp_id [1..<Suc (length rows)])"
    by (simp add: distinct_map inj_on_subset[OF comp_id_inj])
  moreover have "set (map comp_id [1..<Suc (length rows)]) = comp_id ` {1..length rows}"
    by (simp only: set_map set_upt atLeastLessThanSuc_atLeastAtMost)
  ultimately show ?thesis using ids by simp
qed

theorem sequential_numbering_witness:
  "generate_compartments lib (\<lambda>rows. True) (Some trapezoid) 2 = Inr trapezoid_rows
   \<and> (map fst trapezoid_rows = map comp_id [1..<Suc (length trapezoid_rows)]
      \<and> distinct (map fst trapezoid_rows)
      \<and> set (map fst trapezoid_rows) = comp_id ` {1..length trapezoid_rows})
   \<and> map fst trapezoid_rows = [''C1'', ''C2'']"
proof -
  have "map fst trapezoid_rows = [''C1'', ''C2'']" by (simp add: trapezoid_rows_def)
  with trapezoid_partition sequential_numbering[OF trapezoid_partition]
  show ?thesis by blast
qed

text \<open>
  C2. Every compartment's area lies within 5\% of the mean compartment area. The source
  states the property (``All compartments SHALL have approximately equal area within
  \<open>\<plusminus>\<close>5\% tolerance'') and does not keep it. Of the trapezoid cut into two, the first
  compartment is the part left of the cut, of area 1.0899, accepted because it is within
  10\% of the target 1; the second is the strip inside the box of the cut, of area 0.0002,
  which no cut divides and which is accepted when the depth passes 10.
  \<^verbatim>\<open>_validate_compartments\<close> warns about both and the file is written. Whichever two of
  the three pieces of the split the library lists first, the two compartments are not
  balanced: the left and the right part are 9\% above and 9\% below their mean.
\<close>

theorem area_balance_fails:
  "generate_compartments lib (\<lambda>rows. True) (Some trapezoid) 2 = Inr trapezoid_rows
   \<and> \<not> area_balanced trapezoid_rows
   \<and> recursive_bisection lib trapezoid 2 1 [] 0 =
        [(trapezoid_left, ''C1''), (trapezoid_strip, ''C2'')]
   \<and> validate_compartments lib [(trapezoid_left, ''C1''), (trapezoid_strip, ''C2'')] 1
        = [''C1'', ''C2'']
   \<and> validate_compartments lib [(trapezoid_left, ''C1''), (trapezoid_right, ''C2'')] 1
        = [''C1'', ''C2'']
   \<and> list_all (\<lambda>ord. case generate_compartments (convex_lib ord) (\<lambda>rows. True)
                              (Some trapezoid) 2 of
                         Inl e \<Rightarrow> False | Inr rows \<Rightarrow> \<not> area_balanced rows) piece_orders"
proof -
  note 1 = trapezoid_partition
  have 2: "\<not> area_balanced trapezoid_rows"
    by (simp add: area_balanced_def trapezoid_rows_def mean_def)
  have 3: "validate_compartments lib [(trapezoid_left, ''C1''), (trapezoid_strip, ''C2'')] 1
        = [''C1'', ''C2'']"
    by (simp add: validate_compartments_def mean_def trapezoid_left_area trapezoid_strip_area
        Let_def)
  have 5: "validate_compartments lib [(trapezoid_left, ''C1''), (trapezoid_right, ''C2'')] 1
        = [''C1'', ''C2'']"
    by (simp add: validate_compartments_def mean_def trapezoid_left_area trapezoid_right_area
        Let_def)
  have "list_all (\<lambda>r. case r of Inl e \<Rightarrow> False | Inr rows \<Rightarrow> \<not> area_balanced rows)
      (map (\<lambda>ord. generate_compartments (convex_lib ord) (\<lambda>rows. True) (Some trapezoid) 2)
         piece_orders)"
    unfolding trapezoid_all_orders by (simp add: area_balanced_def mean_def)
  then have 4: "list_all (\<lambda>ord. case generate_compartments (convex_lib ord) (\<lambda>rows. True)
                              (Some trapezoid) 2 of
                         Inl e \<Rightarrow> False | Inr rows \<Rightarrow> \<not> area_balanced rows) piece_orders"
    by (simp add: list.pred_map comp_def)
  from 1 2 3 4 5 trapezoid_bisection show ?thesis by blast
qed




text \<open>
  C4. For every compartment the number of plots generated is at least the configured
  minimum. The source states the property (``minimum 5 plots per compartment''; its test
  of Property 9: ``the number of generated sample plots SHALL be at least 5'') and does
  not keep it: the minimum bounds the number of plots asked for, and the systematic method
  returns the cell centres of its grid that the polygon contains, up to that number. For
  the band, a minimum of five and the method \<open>systematic\<close>, the grid is three by three,
  the band contains three of the nine centres, and the request succeeds and writes three
  plots for the compartment \<open>C1\<close>.
\<close>

theorem plot_minimum_fails:
  "generate_sample_plots lib half_rnd (\<lambda>plots. True) (Some band_file) 0.02 5
     ''systematic'' 0 = Inr band_plots
   \<and> plan (area lib band) 0.02 5 = 5
   \<and> map geometry band_plots = [(1, 1), (3, 3), (5, 5)]
   \<and> int (length (filter (\<lambda>p. compartment_id p = Some ''C1'') band_plots)) = 3
   \<and> int (length (filter (\<lambda>p. compartment_id p = Some ''C1'') band_plots)) < 5"
  using band_request band_planned by (simp add: band_plots_def new_plot_def)

text \<open>
  C5. Every sample point of a successful request is contained in the polygon of a row of
  the compartment file whose identifier it carries, with either placement method; its
  latitude and longitude are the coordinates of that point.
\<close>

theorem plot_containment:
  assumes "generate_sample_plots L rnd to_file (Some gdf) si min_plots method seed = Inr plots"
  shows "\<forall>p \<in> set plots. \<exists>(cid, g) \<in> set (resolve_ids 0 (iterrows gdf)).
           compartment_id p = cid \<and> contains L g (geometry p)
           \<and> geometry p = (longitude p, latitude p)"
proof -
  let ?R = "\<lambda>(all, c :: nat). \<forall>p \<in> set all. \<exists>(cid, g) \<in> set (resolve_ids 0 (iterrows gdf)).
           compartment_id p = cid \<and> contains L g (geometry p)
           \<and> geometry p = (longitude p, latitude p)"
  from assms obtain st' where
    r: "sample_rows L rnd si min_plots method 0 (iterrows gdf)
          ([], \<lparr>plot_counter = 0, draws = seed\<rparr>) = Inr (plots, st')"
    by (auto simp: generate_sample_plots_def split: option.splits if_splits sum.splits)
  have "?R (plots, plot_counter st')"
    by (rule sample_rows_invariant[OF _ _ r, where R = ?R])
       (auto simp: new_plot_def)
  then show ?thesis by simp
qed

theorem plot_containment_witness:
  "generate_sample_plots lib half_rnd (\<lambda>plots. True) (Some two_rows) 0.02 2 ''systematic'' 0 =
     Inr grid_plots
   \<and> list_all (\<lambda>p. list_ex (\<lambda>(cid, g). compartment_id p = cid \<and> contains lib g (geometry p)
                                 \<and> geometry p = (longitude p, latitude p))
                       (resolve_ids 0 (iterrows two_rows))) grid_plots
   \<and> resolve_ids 0 (iterrows two_rows) =
       [(Some ''C1'', trapezoid_left), (Some ''C2'', trapezoid_right)]"
proof -
  note w = plot_containment[OF systematic_request]
  have "resolve_ids 0 (iterrows two_rows) =
       [(Some ''C1'', trapezoid_left), (Some ''C2'', trapezoid_right)]"
    by (simp add: two_rows_def id_eval)
  moreover from w have "list_all (\<lambda>p. list_ex (\<lambda>(cid, g). compartment_id p = cid
        \<and> contains lib g (geometry p) \<and> geometry p = (longitude p, latitude p))
      (resolve_ids 0 (iterrows two_rows))) grid_plots"
    unfolding list_all_iff list_ex_iff by blast
  ultimately show ?thesis using systematic_request by blast
qed

text \<open>
  C6. The number of plots the loop of \<^verbatim>\<open>generate_sample_plots\<close> asks for is the planner
  of the specification, \<open>max(minimum, round(area * intensity / 10000))\<close>; it is at least
  the minimum, and it is 5 for an area of 500000, an intensity of 0.02 and a minimum of 5.
\<close>

theorem planned_count:
  "sample_rows L rnd intensity minimum method idx ((looked_up, g) # rows) (acc, st) =
     (case generate_plots_for_compartment L rnd g
             (case looked_up of Some v \<Rightarrow> v | None \<Rightarrow> Some (comp_id (idx + 1)))
             (plan (area L g) intensity minimum) method st of
        Inl e \<Rightarrow> Inl e
      | Inr (plots, st') \<Rightarrow>
         sample_rows L rnd intensity minimum method (idx + 1) rows (acc @ plots, st'))
   \<and> plan compartment_area intensity minimum =
       max minimum (py_round (compartment_area * intensity / 10000))
   \<and> minimum \<le> plan compartment_area intensity minimum
   \<and> plan 500000 0.02 5 = 5"
proof (intro conjI)
  show "plan 500000 0.02 5 = 5"
    by (simp add: plan_def py_round_def)
qed (simp_all add: plan_def Let_def)

text \<open>
  C7. Within one sampling request the plot identifiers are drawn from one counter that
  no compartment resets: the plots written are, in order, \<open>SP-01\<close>, \<open>SP-02\<close>, \<dots> up to
  the number of plots, each number padded to at least two digits, with no gap and no
  duplicate. This holds for every library, random number generator and method.
\<close>

theorem plot_ids_sequential:
  assumes "generate_sample_plots L rnd to_file gdf si min_plots method seed = Inr plots"
  shows "map plot_id plots = map sp_id [1..<Suc (length plots)]
         \<and> distinct (map plot_id plots)
         \<and> (\<forall>p \<in> set plots. 5 \<le> length (plot_id p))"
proof -
  from assms obtain rows st' where
    r: "sample_rows L rnd si min_plots method 0 rows ([], \<lparr>plot_counter = 0, draws = seed\<rparr>)
         = Inr (plots, st')"
    by (auto simp: generate_sample_plots_def split: option.splits if_splits sum.splits)
  have "numbered (plots, plot_counter st')"
  proof (rule sample_rows_invariant[OF _ _ r])
    show "numbered ([], plot_counter \<lparr>plot_counter = 0, draws = seed\<rparr>)"
      by (simp add: numbered_def)
  next
    fix all c x y cid
    assume "numbered (all, c)"
    then show "numbered (all @ [new_plot c cid x y], c + 1)" by (rule numbered_step)
  qed
  then have ids: "map plot_id plots = map sp_id [1..<Suc (length plots)]"
    by (simp add: numbered_def)
  have "distinct (map sp_id [1..<Suc (length plots)])"
    by (simp add: distinct_map inj_on_subset[OF sp_id_inj])
  then have d: "distinct (map plot_id plots)"
    by (simp only: ids)
  have pad: "\<forall>p \<in> set plots. 5 \<le> length (plot_id p)"
  proof
    fix p assume "p \<in> set plots"
    then have "plot_id p \<in> set (map plot_id plots)" by simp
    then obtain k where "plot_id p = sp_id k"
      unfolding ids by (auto simp del: upt_Suc)
    then show "5 \<le> length (plot_id p)" by (simp add: sp_id_length)
  qed
  from ids d pad show ?thesis by blast
qed

theorem plot_ids_sequential_witness:
  "generate_sample_plots lib half_rnd (\<lambda>plots. True) (Some two_rows) 0.02 2 ''random'' 0 =
     Inr four_plots
   \<and> map plot_id four_plots = map sp_id [1..<Suc (length four_plots)]
   \<and> distinct (map plot_id four_plots)
   \<and> map plot_id four_plots = [''SP-01'', ''SP-02'', ''SP-03'', ''SP-04'']"
proof -
  note w = plot_ids_sequential[OF random_request]
  have "map plot_id four_plots = [''SP-01'', ''SP-02'', ''SP-03'', ''SP-04'']"
    by (simp add: four_plots_def new_plot_def id_eval)
  with w random_request show ?thesis by blast
qed

text \<open>
  C8 as stated fails: for a valid polygon and \<open>num_compartments = -1\<close> no error is
  raised; the recursion returns at once and an empty list is written.
\<close>

theorem partition_accepts_negative_count:
  "generate_compartments lib (\<lambda>rows. True) (Some trapezoid) (- 1) = Inr []
   \<and> (- 1 :: int) < 1"
  by (simp add: generate_compartments_def trapezoid_valid recursive_bisection_stop
      create_compartment_geodataframe_def Let_def)

text \<open>
  C8, as amended. The partition fails with an error when \<^verbatim>\<open>shape\<close> raises, when the
  library reports the geometry as not valid, and when \<open>num_compartments = 0\<close> (a division
  by zero). For a valid geometry and a negative \<open>num_compartments\<close> it produces the empty
  list, and fails only if writing an empty file does.
\<close>

theorem partition_errors:
  "(boundary_geom = None \<or> (\<exists>g. boundary_geom = Some g \<and> \<not> is_valid L g) \<or> n = 0 \<longrightarrow>
      isl (generate_compartments L to_file boundary_geom n))
   \<and> (\<forall>g. boundary_geom = Some g \<and> is_valid L g \<and> n < 0 \<longrightarrow>
        generate_compartments L to_file boundary_geom n =
          (if to_file [] then Inr [] else Inl (ValueError ToFileError)))"
proof (intro conjI impI allI)
  assume "boundary_geom = None \<or> (\<exists>g. boundary_geom = Some g \<and> \<not> is_valid L g) \<or> n = 0"
  then show "isl (generate_compartments L to_file boundary_geom n)"
    by (auto simp: generate_compartments_def Let_def split: option.splits)
next
  fix g assume "boundary_geom = Some g \<and> is_valid L g \<and> n < 0"
  then show "generate_compartments L to_file boundary_geom n =
          (if to_file [] then Inr [] else Inl (ValueError ToFileError))"
    by (simp add: generate_compartments_def recursive_bisection_stop
        create_compartment_geodataframe_def Let_def)
qed

theorem partition_errors_witness:
  "\<not> is_valid lib bowtie
   \<and> isl (generate_compartments lib (\<lambda>rows. True) (Some bowtie) 4)
   \<and> isl (generate_compartments lib (\<lambda>rows. True) (Some trapezoid) 0)
   \<and> is_valid lib trapezoid
   \<and> generate_compartments lib (\<lambda>rows. True) (Some trapezoid) (- 1) =
        (if (\<lambda>rows :: geom compartment_row list. True) [] then Inr [] else Inl (ValueError ToFileError))"
proof -
  have b: "\<not> is_valid lib bowtie" using bowtie_invalid by simp
  have v: "is_valid lib trapezoid" using trapezoid_valid by simp
  from partition_errors[of "Some bowtie" lib 4 "\<lambda>rows. True"] b
  have 1: "isl (generate_compartments lib (\<lambda>rows. True) (Some bowtie) 4)" by blast
  from partition_errors[of "Some trapezoid" lib 0 "\<lambda>rows. True"]
  have 2: "isl (generate_compartments lib (\<lambda>rows. True) (Some trapezoid) 0)" by blast
  from partition_errors[of "Some trapezoid" lib "- 1" "\<lambda>rows. True"] v
  have 3: "generate_compartments lib (\<lambda>rows. True) (Some trapezoid) (- 1) =
        (if (\<lambda>rows :: geom compartment_row list. True) [] then Inr [] else Inl (ValueError ToFileError))"
    by simp
  from b 1 2 v 3 show ?thesis by blast
qed

text \<open>
  C9. Both loops terminate on every input. The recursive bisection is total: a call at a
  depth above 10 that still lacks compartments accepts its polygon without a further
  call, and a call at depth \<open>d\<close> appends at most \<open>2 ^ (11 - d)\<close> compartments, whatever
  the geometry. The random placement loop is total: it makes at most \<open>10 * count\<close>
  attempts, each of two draws.
\<close>

theorem loops_terminate:
  "recursive_bisection_dom (L, polygon, n, t, cs, depth)
   \<and> (10 < depth \<and> int (length cs) < n \<longrightarrow>
        recursive_bisection L polygon n t cs depth = cs @ [(polygon, comp_id (length cs + 1))])
   \<and> length (recursive_bisection L polygon n t cs depth) \<le> length cs + 2 ^ (11 - depth)
   \<and> random_loop_dom (L, rnd, g, cid, num_plots, minx, miny, maxx, maxy, num_plots * 10,
          [], 0, st)
   \<and> (random_loop L rnd g cid num_plots minx miny maxx maxy (num_plots * 10) [] 0 st
          = (plots, attempts, st') \<longrightarrow>
        attempts \<le> max 0 (10 * num_plots) \<and> int (draws st') = int (draws st) + 2 * attempts)"
proof (intro conjI impI)
  show "recursive_bisection_dom (L, polygon, n, t, cs, depth)"
    by (rule recursive_bisection_total)
  show "random_loop_dom (L, rnd, g, cid, num_plots, minx, miny, maxx, maxy, num_plots * 10,
          [], 0, st)"
    by (rule random_loop_total)
  show "length (recursive_bisection L polygon n t cs depth) \<le> length cs + 2 ^ (11 - depth)"
    by (rule recursive_bisection_length)
next
  assume "10 < depth \<and> int (length cs) < n"
  then show "recursive_bisection L polygon n t cs depth =
      cs @ [(polygon, comp_id (length cs + 1))]"
    by (intro recursive_bisection_accept) auto
next
  assume r: "random_loop L rnd g cid num_plots minx miny maxx maxy (num_plots * 10) [] 0 st
          = (plots, attempts, st')"
  from random_loop_attempts[OF r]
  show "attempts \<le> max 0 (10 * num_plots)" "int (draws st') = int (draws st) + 2 * attempts"
    by (simp_all add: mult.commute)
qed

theorem loops_terminate_witness:
  "(10::nat) < 11 \<and> int (length ([] :: geom compartment list)) < 2
   \<and> recursive_bisection lib trapezoid 2 1 [] 11 = [] @ [(trapezoid, comp_id (length ([] :: geom compartment list) + 1))]
   \<and> random_loop lib half_rnd trapezoid_left (Some ''C1'') 2 0 0 0.9999 1.18 (2 * 10) [] 0
        \<lparr>plot_counter = 0, draws = 0\<rparr> =
      ([new_plot 0 (Some ''C1'') 0.49995 0.59, new_plot 1 (Some ''C1'') 0.49995 0.59], 2,
        \<lparr>plot_counter = 2, draws = 4\<rparr>)
   \<and> (2::int) \<le> max 0 (10 * 2)"
proof -
  note w = loops_terminate[of lib trapezoid 2 1 "[]" 11 half_rnd trapezoid_left "Some ''C1''" 2
      0 0 "0.9999" "1.18" "\<lparr>plot_counter = 0, draws = 0\<rparr>"
      "[new_plot 0 (Some ''C1'') 0.49995 0.59, new_plot 1 (Some ''C1'') 0.49995 0.59]" 2
      "\<lparr>plot_counter = 2, draws = 4\<rparr>"]
  have a: "(10::nat) < 11 \<and> int (length ([] :: geom compartment list)) < 2" by simp
  from w a have "recursive_bisection lib trapezoid 2 1 [] 11 =
      [] @ [(trapezoid, comp_id (length ([] :: geom compartment list) + 1))]"
    by blast
  moreover from w random_left_loop have "(2::int) \<le> max 0 (10 * 2)" by blast
  ultimately show ?thesis using a random_left_loop by blast
qed

text \<open>
  C10. Every method other than the string \<open>systematic\<close> places the plots with the random
  method: for one compartment and for the whole request the result, errors included, is
  that of the method \<open>random\<close>.
\<close>

theorem unrecognized_method_is_random:
  assumes "method \<noteq> ''systematic''"
  shows "generate_plots_for_compartment L rnd g cid n method st =
           generate_random_plots L rnd g cid n st
       \<and> generate_sample_plots L rnd to_file gdf si min_plots method seed =
           generate_sample_plots L rnd to_file gdf si min_plots ''random'' seed"
proof -
  have g: "generate_plots_for_compartment L rnd g cid n method st =
      generate_plots_for_compartment L rnd g cid n ''random'' st" for g cid n st
    using assms by (simp add: generate_plots_for_compartment_def)
  have "sample_rows L rnd si min_plots method idx rows acc =
      sample_rows L rnd si min_plots ''random'' idx rows acc" for idx rows acc
    by (induction rows arbitrary: idx acc) (auto simp: g Let_def split: sum.splits)
  then have "generate_sample_plots L rnd to_file gdf si min_plots method seed =
           generate_sample_plots L rnd to_file gdf si min_plots ''random'' seed"
    by (simp add: generate_sample_plots_def split: option.splits)
  then show ?thesis using assms
    by (simp add: generate_plots_for_compartment_def)
qed

theorem unrecognized_method_is_random_witness:
  "''grid'' \<noteq> ''systematic''
   \<and> generate_sample_plots lib half_rnd (\<lambda>plots. True) (Some two_rows) 0.02 2 ''grid'' 0 =
       Inr four_plots"
proof -
  have n: "''grid'' \<noteq> ''systematic''" by simp
  note w = unrecognized_method_is_random[OF n, of lib half_rnd _ _ _ _
      "\<lambda>plots. True" "Some two_rows" "0.02" 2 0]
  from w random_request have
    "generate_sample_plots lib half_rnd (\<lambda>plots. True) (Some two_rows) 0.02 2 ''grid'' 0 =
       Inr four_plots"
    by (simp only:)
  with n show ?thesis by blast
qed

end
